theory Spec2Isabelle
  imports Complex_Main "HOL-Library.Signed_Division"
begin

section \<open>Go values\<close>

text \<open>
  The package \<open>morse\<close> of ZyLO (\<open>commons/morse/symbols.go\<close>) is embedded function by
  function. A Go \<open>string\<close> is a byte sequence (\<open>string\<close>, a \<open>char list\<close>); a \<open>rune\<close> is a
  code point (\<open>int\<close>); a text that the code only ever ranges over rune by rune, or builds
  rune by rune, is the list of its runes. A slice is a list; \<open>len\<close> is \<open>int (length xs)\<close>.
  \<open>float64\<close> is idealised as \<open>real\<close>: the order is total (no NaN) and arithmetic is exact.
  A run-time panic is a value of type \<open>panic\<close>, and a function that can panic returns
  \<open>panic + 'a\<close>.
\<close>

type_synonym rune = int

datatype panic = DivideByZero | IndexRange | SliceBounds | MakeSlice

definition rune :: "char \<Rightarrow> rune" where
  "rune c = of_char c"

text \<open>Go's \<open>/\<close> on \<open>int\<close> truncates towards zero and panics on a zero divisor.\<close>

definition go_div :: "int \<Rightarrow> int \<Rightarrow> panic + int" where
  "go_div a b = (if b = 0 then Inl DivideByZero else Inr (a sdiv b))"

text \<open>Go's \<open>int\<close> has 64 bits; \<open>wrap64\<close> is what an addition leaves in it.\<close>

definition wrap64 :: "int \<Rightarrow> int" where
  "wrap64 x = (x + 2 ^ 63) mod 2 ^ 64 - 2 ^ 63"

text \<open>\<open>s[low:]\<close> of a slice: panics unless \<open>0 \<le> low \<le> len(s)\<close>.\<close>

definition slice_from :: "'a list \<Rightarrow> int \<Rightarrow> panic + 'a list" where
  "slice_from s low =
     (if low < 0 \<or> int (length s) < low then Inl SliceBounds else Inr (drop (nat low) s))"

section \<open>The Morse codec\<close>

text \<open>
  \<open>forward\<close> and \<open>reverse\<close> are the two package-level maps that \<open>init\<close> fills from the
  embedded file \<open>latin.dat\<close>. The file is not part of the sources at hand, so the lines
  that \<open>bufio.Scanner\<close> yields for it are a parameter of \<open>init\<close>.
\<close>

record tables =
  reverse :: "string \<rightharpoonup> rune"
  forward :: "rune \<rightharpoonup> string"

text \<open>
  One pass of the loop body of \<open>init\<close>: \<open>val[0]\<close> panics on an empty line; \<open>val[1:]\<close> is
  the rest of the line.
\<close>

fun init_loop :: "string list \<Rightarrow> tables \<Rightarrow> panic + tables" where
  "init_loop [] T = Inr T"
| "init_loop (val # rest) T =
     (case val of
        [] \<Rightarrow> Inl IndexRange
      | c # code \<Rightarrow>
          init_loop rest
            (T\<lparr>reverse := (reverse T)(code \<mapsto> rune c),
               forward := (forward T)(rune c \<mapsto> code)\<rparr>))"

definition init :: "string list \<Rightarrow> panic + tables" where
  "init lines = init_loop lines \<lparr>reverse = Map.empty, forward = Map.empty\<rparr>"

text \<open>
  \<open>strings.Split(s, sep)\<close> of the Go standard library for a separator of one byte: the
  pieces of \<open>s\<close> between the separators; a string without separator (also the empty
  string) is its own single piece.
\<close>

fun Split :: "string \<Rightarrow> char \<Rightarrow> string list" where
  "Split [] sep = [[]]"
| "Split (c # cs) sep =
     (if c = sep then [] # Split cs sep
      else (case Split cs sep of
              [] \<Rightarrow> [[c]]
            | t # ts \<Rightarrow> (c # t) # ts))"

text \<open>\<open>CodeToText\<close>: the result is given as the runes appended to it; \<open>?\<close> is rune 63.\<close>

definition CodeToText_step :: "tables \<Rightarrow> string \<Rightarrow> rune list \<Rightarrow> rune list" where
  "CodeToText_step T s result =
     (case reverse T s of
        Some val \<Rightarrow> result @ [val]
      | None \<Rightarrow> result @ [rune CHR ''?''])"

definition CodeToText :: "tables \<Rightarrow> string \<Rightarrow> rune list" where
  "CodeToText T code = fold (CodeToText_step T) (Split code CHR '' '') []"

text \<open>
  \<open>TextToCode\<close>: the text is given as the runes that \<open>range text\<close> yields. Reading a
  missing key of a Go map gives the zero value, the empty string.
\<close>

definition forward_at :: "tables \<Rightarrow> rune \<Rightarrow> string" where
  "forward_at T s = (case forward T s of Some code \<Rightarrow> code | None \<Rightarrow> [])"

definition TextToCode :: "tables \<Rightarrow> rune list \<Rightarrow> string" where
  "TextToCode T text =
     (let result = fold (\<lambda>s result. result @ '' '' @ forward_at T s) text []
      in if result \<noteq> [] then tl result else result)"

text \<open>
  Modelled from the spec: two lines of the missing \<open>latin.dat\<close> that the testable
  properties 4 and 5 fix (\<open>SOS\<close> is \<open>... --- ...\<close>), in the file's format: the glyph at
  column 0, its code after it.
\<close>

definition latin_sample :: "string list" where
  "latin_sample = [''S...'', ''O---'']"

text \<open>
  Modelled from the spec: the two maps for these two lines, what \<open>init\<close> leaves in
  \<open>reverse\<close> and \<open>forward\<close> when the missing file holds them.
\<close>

definition sample_tables :: tables where
  "sample_tables =
     \<lparr>reverse = [''...'' \<mapsto> rune CHR ''S'', ''---'' \<mapsto> rune CHR ''O''],
      forward = [rune CHR ''S'' \<mapsto> ''...'', rune CHR ''O'' \<mapsto> ''---'']\<rparr>"

text \<open>
  Modelled from the spec: what the spec says of the lines of the missing \<open>latin.dat\<close>.
  Each line is a glyph followed by its code, a sequence of dots and dashes (sections 3
  and 6); the codec is a bidirectional map (section 2), so no two lines carry the same
  code.
\<close>

definition well_formed :: "string list \<Rightarrow> bool" where
  "well_formed lines =
     (list_all (\<lambda>val. val \<noteq> [] \<and> list_all (\<lambda>c. c = CHR ''.'' \<or> c = CHR ''-'') (tl val)) lines
      \<and> distinct (map tl lines))"

section \<open>Messages and the decoder\<close>

record Message =
  Data :: "real list"
  Code :: string
  Freq :: int
  Life :: int
  Miss :: int
  side :: bool

text \<open>
  The handle \<open>*stft.STFT\<close> belongs to the external library \<open>gossp\<close>. The code reads its
  fields \<open>FrameShift\<close> and \<open>FrameLen\<close> and calls its transform; \<open>Amplitude\<close> stands for
  that call, the first result of \<open>gossp.SplitSpectrogram(d.STFT.STFT(signal))\<close>: one list
  of bin magnitudes per frame. It is a parameter of the model.
\<close>

record STFT =
  FrameShift :: int
  FrameLen :: int
  Amplitude :: "real list \<Rightarrow> real list list"

record Decoder =
  Iter :: int
  Bias :: int
  Band :: int
  Gain :: real
  Mute :: real
  Loud :: real
  STFT :: STFT

definition MIN_RELIABLE_DOT :: real where
  "MIN_RELIABLE_DOT = 2"

definition clip :: "int \<Rightarrow> int \<Rightarrow> int \<Rightarrow> int" where
  "clip x mn mx = (let x1 = (if x < mn then mn else x) in if x1 > mx then mx else x1)"

subsection \<open>The parts of the package that are not in the file\<close>

text \<open>
  \<open>symbols.go\<close> calls the helpers \<open>Max64\<close>, \<open>Min64\<close> and \<open>Sum64\<close> and uses the types
  \<open>step\<close> and \<open>means\<close> with their methods; none of them is defined in it. They follow
  the spec (the Step and the Cluster Engine of sections 3, 4.2 and 4.3).
\<close>

text \<open>
  Modelled from the spec: the helper \<open>Max64\<close>, the maximum of a vector (\<open>max(envelope)\<close>,
  \<open>tone = max(m)\<close>). The spec applies it to non-empty vectors only; on the empty vector
  the model gives 0.
\<close>

definition Max64 :: "real list \<Rightarrow> real" where
  "Max64 xs = (case xs of [] \<Rightarrow> 0 | x # rest \<Rightarrow> fold max rest x)"

text \<open>
  Modelled from the spec: the helper \<open>Min64\<close>, the minimum of a vector (\<open>mute = min(m)\<close>),
  0 on the empty vector.
\<close>

definition Min64 :: "real list \<Rightarrow> real" where
  "Min64 xs = (case xs of [] \<Rightarrow> 0 | x # rest \<Rightarrow> fold min rest x)"

text \<open>Modelled from the spec: the helper \<open>Sum64\<close>, the sum of a vector (\<open>sum(dist)\<close>).\<close>

definition Sum64 :: "real list \<Rightarrow> real" where
  "Sum64 xs = fold (\<lambda>x s. s + x) xs 0"

text \<open>
  Modelled from the spec: the type \<open>step\<close>, a transition of the envelope with the fields
  \<open>time\<close>, \<open>down\<close> and \<open>span\<close> that \<open>detect\<close> reads and writes: the frame index, whether
  the key is down from there on, and a duration in frames.
\<close>

record step =
  step_time :: int
  step_down :: bool
  step_span :: real

text \<open>
  Modelled from the spec: the type \<open>means\<close>, the two-class mixture with the fields \<open>X\<close>
  (the samples) and \<open>m\<close> (the two class means) that \<open>binary\<close> and \<open>detect\<close> use.
\<close>

record means =
  means_X :: "real list"
  means_m :: "real list"

text \<open>
  Modelled from the spec: the method \<open>class\<close>. A sample belongs to the class of the
  nearest mean, ties to class 0.
\<close>

definition means_class :: "means \<Rightarrow> real \<Rightarrow> nat" where
  "means_class g x =
     (case means_m g of
        [m0, m1] \<Rightarrow> (if \<bar>x - m0\<bar> \<le> \<bar>x - m1\<bar> then 0 else 1)
      | _ \<Rightarrow> 0)"

text \<open>
  Modelled from the spec: the mean of a class is the arithmetic average of its members;
  an empty class keeps its mean.
\<close>

definition average :: "real \<Rightarrow> real list \<Rightarrow> real" where
  "average old xs = (if xs = [] then old else Sum64 xs / real (length xs))"

text \<open>
  Modelled from the spec: one iteration of \<open>optimize\<close> assigns each sample to the nearest
  mean and recomputes each class mean.
\<close>

definition means_refine :: "means \<Rightarrow> means" where
  "means_refine g =
     (case means_m g of
        [m0, m1] \<Rightarrow>
          g\<lparr>means_m :=
              [average m0 (filter (\<lambda>x. means_class g x = 0) (means_X g)),
               average m1 (filter (\<lambda>x. means_class g x \<noteq> 0) (means_X g))]\<rparr>
      | _ \<Rightarrow> g)"

text \<open>Modelled from the spec: after the iterations the means are sorted, \<open>m[0] \<le> m[1]\<close>.\<close>

definition means_sorted :: "means \<Rightarrow> means" where
  "means_sorted g =
     (case means_m g of
        [m0, m1] \<Rightarrow> (if m0 \<le> m1 then g else g\<lparr>means_m := [m1, m0]\<rparr>)
      | _ \<Rightarrow> g)"

text \<open>
  Modelled from the spec: the method \<open>optimize\<close> starts from the minimum and the maximum
  of the samples, iterates a fixed number of times and leaves the means sorted.
\<close>

definition means_optimize :: "int \<Rightarrow> means \<Rightarrow> means" where
  "means_optimize iter g =
     means_sorted
       ((means_refine ^^ nat iter) (g\<lparr>means_m := [Min64 (means_X g), Max64 (means_X g)]\<rparr>))"

text \<open>
  Modelled from the spec: the method \<open>extra\<close> sorts a key-up duration by the larger mean of the
  key-down mixture: up to \<open>m[1]\<close> a gap inside a character (0), up to \<open>3 * m[1]\<close> a gap
  between characters (1), beyond that a gap between words (2).
\<close>

definition means_extra :: "means \<Rightarrow> real \<Rightarrow> nat" where
  "means_extra g x =
     (case means_m g of
        [m0, m1] \<Rightarrow> (if x \<le> m1 then 0 else if x \<le> 3 * m1 then 1 else 2)
      | _ \<Rightarrow> 0)"

text \<open>
  Modelled from the spec: the walk of \<open>steps\<close> over the samples after the first, with a
  step at every index whose class differs from the one before; the key is down where
  the class is the high one.
\<close>

fun steps_loop :: "means \<Rightarrow> int \<Rightarrow> nat \<Rightarrow> real list \<Rightarrow> step list" where
  "steps_loop g idx before [] = []"
| "steps_loop g idx before (x # rest) =
     (let cls = means_class g x
      in if cls \<noteq> before
         then \<lparr>step_time = idx, step_down = (cls \<noteq> 0), step_span = 0\<rparr>
                # steps_loop g (idx + 1) cls rest
         else steps_loop g (idx + 1) cls rest)"

text \<open>
  Modelled from the spec: the method \<open>steps\<close> gives a first step at time 0 with the class
  at index 0, and a step at every later index where the class changes.
\<close>

definition means_steps :: "means \<Rightarrow> step list" where
  "means_steps g =
     (case means_X g of
        [] \<Rightarrow> []
      | x # rest \<Rightarrow>
          \<lparr>step_time = 0, step_down = (means_class g x \<noteq> 0), step_span = 0\<rparr>
            # steps_loop g 1 (means_class g x) rest)"

text \<open>
  Modelled from the spec: the method \<open>tone\<close>. The symbol of a key-down run is a dot for
  class 0 and a dash for class 1.
\<close>

definition step_tone :: "step \<Rightarrow> nat \<Rightarrow> string" where
  "step_tone s cls = (if cls = 0 then ''.'' else ''-'')"

text \<open>
  Modelled from the spec: the method \<open>mute\<close>. The separator of a key-up run is empty
  inside a character, one space between characters and two spaces between words.
\<close>

definition step_mute :: "step \<Rightarrow> nat \<Rightarrow> string" where
  "step_mute s cls = (if cls = 0 then [] else if cls = 1 then '' '' else ''  '')"

subsection \<open>\<open>Decoder.binary\<close>, \<open>Decoder.detect\<close> and \<open>Decoder.search\<close>\<close>

text \<open>
  \<open>rescale\<close> is the first loop of \<open>binary\<close>. For a zero sample Go computes
  \<open>0 * min(Gain, +Inf)\<close> and the model \<open>0 * min(Gain, 0)\<close>: both are 0 (for a vector that
  is not zero throughout).
\<close>

definition rescale :: "Decoder \<Rightarrow> real list \<Rightarrow> real list" where
  "rescale d signal = map (\<lambda>val. val * min (Gain d) (Max64 signal / val)) signal"

definition binary_gmm :: "Decoder \<Rightarrow> real list \<Rightarrow> means" where
  "binary_gmm d signal = means_optimize (Iter d) \<lparr>means_X = rescale d signal, means_m = []\<rparr>"

definition Decoder_binary :: "Decoder \<Rightarrow> real list \<Rightarrow> step list" where
  "Decoder_binary d signal =
     (let gmm = binary_gmm d signal;
          tone = Max64 (means_m gmm);
          mute = Min64 (means_m gmm)
      in if tone > Mute d * mute then means_steps gmm else [])"

text \<open>
  The first loop of \<open>detect\<close> stores in every step but the first the time since the step
  before it; \<open>spanned\<close> is \<open>steps[1:]\<close> after that loop, \<open>detect_tones\<close> the spans it
  collects from the steps with \<open>down\<close> set, \<open>detect_gmm\<close> the mixture of these, and
  \<open>detect_symbols\<close> what the second loop appends to \<open>Code\<close>.
\<close>

fun spanned :: "step list \<Rightarrow> step list" where
  "spanned [] = []"
| "spanned [s0] = []"
| "spanned (s0 # s # rest) =
     s\<lparr>step_span := real_of_int (step_time s - step_time s0)\<rparr> # spanned (s # rest)"

definition detect_tones :: "step list \<Rightarrow> real list" where
  "detect_tones steps = map step_span (filter step_down (spanned steps))"

definition detect_gmm :: "Decoder \<Rightarrow> step list \<Rightarrow> means" where
  "detect_gmm d steps = means_optimize (Iter d) \<lparr>means_X = detect_tones steps, means_m = []\<rparr>"

definition detect_symbols :: "means \<Rightarrow> step list \<Rightarrow> string" where
  "detect_symbols gmm steps =
     fold (\<lambda>s code. code @ (if step_down s then step_tone s (means_class gmm (step_span s))
                             else step_mute s (means_extra gmm (step_span s))))
       (spanned steps) []"

definition Decoder_detect :: "Decoder \<Rightarrow> real list \<Rightarrow> Message" where
  "Decoder_detect d signal =
     (let steps = Decoder_binary d signal;
          tones = detect_tones steps
      in \<lparr>Data = signal,
          Code = (if 1 \<le> length tones
                  then (let gmm = detect_gmm d steps
                        in if Min64 (means_m gmm) > MIN_RELIABLE_DOT
                           then detect_symbols gmm steps else [])
                  else []),
          Freq = 0, Life = 0, Miss = 0, side = False\<rparr>)"

text \<open>
  The loop of \<open>search\<close> with its variables \<open>top\<close> (here \<open>top'\<close>), \<open>pos\<close> and \<open>result\<close>;
  \<open>idx\<close> is the index of the head of the rest of the spectrum.
\<close>

fun search_loop ::
  "real \<Rightarrow> int \<Rightarrow> real list \<Rightarrow> nat \<Rightarrow> real \<times> nat \<times> int list \<Rightarrow> real \<times> nat \<times> int list" where
  "search_loop lev bias [] idx (top', pos, result) = (top', pos, result)"
| "search_loop lev bias (val # rest) idx (top', pos, result) =
     (if val > top' then search_loop lev bias rest (Suc idx) (val, idx, result)
      else if val < lev \<and> top' > lev
           then search_loop lev bias rest (Suc idx) (0, 0, result @ [wrap64 (bias + int pos)])
           else search_loop lev bias rest (Suc idx) (top', pos, result))"

definition Decoder_search :: "Decoder \<Rightarrow> real list \<Rightarrow> int list" where
  "Decoder_search d spectrum =
     snd (snd (search_loop (Loud d * Sum64 spectrum) (Bias d) spectrum 0 (0, 0, [])))"

text \<open>
  The carrier search in the words of the spec: whenever the value is below the level
  and the tracked top above it, commit and reset; otherwise keep the running maximum.
\<close>

fun spec_search_loop ::
  "real \<Rightarrow> int \<Rightarrow> real list \<Rightarrow> nat \<Rightarrow> real \<times> nat \<times> int list \<Rightarrow> real \<times> nat \<times> int list" where
  "spec_search_loop lev bias [] idx (top', pos, result) = (top', pos, result)"
| "spec_search_loop lev bias (val # rest) idx (top', pos, result) =
     (if val < lev \<and> top' > lev
      then spec_search_loop lev bias rest (Suc idx) (0, 0, result @ [wrap64 (bias + int pos)])
      else spec_search_loop lev bias rest (Suc idx)
             (if val > top' then (val, idx, result) else (top', pos, result)))"

subsection \<open>\<open>Decoder.Read\<close>\<close>

text \<open>\<open>s[low:high]\<close> of a slice whose capacity is its length.\<close>

definition slice :: "'a list \<Rightarrow> int \<Rightarrow> int \<Rightarrow> panic + 'a list" where
  "slice s low high =
     (if low < 0 \<or> high < low \<or> int (length s) < high then Inl SliceBounds
      else Inr (take (nat (high - low)) (drop (nat low) s)))"

text \<open>\<open>dist[idx] += val * val\<close> for the values of one frame.\<close>

fun add_squares :: "real list \<Rightarrow> real list \<Rightarrow> real list" where
  "add_squares (x # dist') (val # vals) = (x + val * val) # add_squares dist' vals"
| "add_squares dist' [] = dist'"
| "add_squares [] vals = []"

fun Read_dist :: "Decoder \<Rightarrow> real list list \<Rightarrow> real list \<Rightarrow> panic + real list" where
  "Read_dist d [] dist' = Inr dist'"
| "Read_dist d (s # spec) dist' =
     (case slice s (Bias d) (int (length dist')) of
        Inl e \<Rightarrow> Inl e
      | Inr vals \<Rightarrow> Read_dist d spec (add_squares dist' vals))"

text \<open>
  The body of the loop over \<open>n\<close>. The index \<open>clip(idx+n, 0, len(dist)-1)\<close> is within
  every frame: the loop runs only for a centre that \<open>search\<close> found, so \<open>dist\<close> is not
  empty, and \<open>Read_dist\<close> has sliced every frame up to \<open>len(dist)\<close>.
\<close>

definition Read_bin :: "Decoder \<Rightarrow> real list list \<Rightarrow> real list \<Rightarrow> int \<Rightarrow> int \<Rightarrow> Message list" where
  "Read_bin d spec dist' idx n =
     (let buff = map (\<lambda>s. s ! nat (clip (wrap64 (idx + n)) 0 (int (length dist') - 1))) spec;
          m = Decoder_detect d buff
      in if Code m \<noteq> [] then [m\<lparr>side := (n \<noteq> 0), Freq := wrap64 (idx + n)\<rparr>] else [])"

definition Decoder_Read :: "Decoder \<Rightarrow> real list \<Rightarrow> panic + Message list" where
  "Decoder_Read d signal =
     (let spec = Amplitude (STFT d) signal;
          half = FrameLen (STFT d) sdiv 2
      in if half < 0 then Inl MakeSlice
         else (case Read_dist d spec (replicate (nat half) 0) of
                 Inl e \<Rightarrow> Inl e
               | Inr dist' \<Rightarrow>
                   Inr (concat (map (\<lambda>idx. concat (map (Read_bin d spec dist' idx) [- Band d .. Band d]))
                                  (Decoder_search d dist')))))"

section \<open>The monitor\<close>

record Monitor =
  MaxHold :: int
  MaxMiss :: int
  MaxBand :: int
  Decoder :: Decoder
  samples :: "real list"
  targets :: "Message list"

text \<open>
  \<open>DefaultMonitor\<close>; the transform of the handle that \<open>stft.New\<close> builds is a parameter.
\<close>

definition DefaultMonitor :: "(real list \<Rightarrow> real list list) \<Rightarrow> int \<Rightarrow> Monitor" where
  "DefaultMonitor transform SamplingRateInHz =
     \<lparr>MaxHold = wrap64 (2 * SamplingRateInHz), MaxMiss = 5, MaxBand = 3,
      Decoder = \<lparr>Iter = 5, Bias = 5, Band = 0, Gain = 2, Mute = 5, Loud = 1 / 100,
                  STFT = \<lparr>FrameShift = SamplingRateInHz sdiv 100, FrameLen = 2048,
                           Amplitude = transform\<rparr>\<rparr>,
      samples = [], targets = []\<rparr>"

text \<open>
  \<open>next_merge\<close> is the body of the \<open>if\<close> in \<open>Monitor.next\<close>, \<open>next_targets\<close> the loop over
  \<open>m.targets\<close> around it, whose variable is \<open>next\<close>, and \<open>next_loop\<close> the loop over the
  messages of the wide decoder with its \<open>result\<close>.
\<close>

definition next_merge :: "Monitor \<Rightarrow> real list \<Rightarrow> Message \<Rightarrow> Message \<Rightarrow> panic + Message" where
  "next_merge m signal prev next =
     (case go_div (int (length signal)) (FrameShift (STFT (Decoder m))) of
        Inl e \<Rightarrow> Inl e
      | Inr frames \<Rightarrow>
          (case slice_from (Data next) (int (length (Data next)) - frames) of
             Inl e \<Rightarrow> Inl e
           | Inr tail \<Rightarrow>
               Inr ((Decoder_detect (Decoder m) (Data prev @ tail))
                      \<lparr>Freq := Freq prev, Life := Life prev\<rparr>)))"

fun next_targets :: "Monitor \<Rightarrow> real list \<Rightarrow> Message list \<Rightarrow> Message \<Rightarrow> panic + Message" where
  "next_targets m signal [] next = Inr next"
| "next_targets m signal (prev # rest) next =
     (if Freq next = Freq prev
      then (case next_merge m signal prev next of
              Inl e \<Rightarrow> Inl e
            | Inr merged \<Rightarrow> next_targets m signal rest merged)
      else next_targets m signal rest next)"

fun next_loop :: "Monitor \<Rightarrow> real list \<Rightarrow> Message list \<Rightarrow> Message list \<Rightarrow> panic + Message list" where
  "next_loop m signal [] result = Inr result"
| "next_loop m signal (next # rest) result =
     (case next_targets m signal (targets m) next of
        Inl e \<Rightarrow> Inl e
      | Inr merged \<Rightarrow>
          next_loop m signal rest
            (if \<not> side merged then result @ [merged\<lparr>Life := wrap64 (Life merged + 1)\<rparr>]
             else result))"

text \<open>\<open>wide\<close> is the decoder \<open>extra\<close>: a copy of \<open>m.Decoder\<close> with \<open>Band = m.MaxBand\<close>.\<close>

definition wide :: "Monitor \<Rightarrow> Decoder" where
  "wide m = (Decoder m)\<lparr>Band := MaxBand m\<rparr>"

definition Monitor_next :: "Monitor \<Rightarrow> real list \<Rightarrow> panic + Message list" where
  "Monitor_next m signal =
     (case Decoder_Read (wide m) (samples m) of
        Inl e \<Rightarrow> Inl e
      | Inr fresh \<Rightarrow> next_loop m signal fresh [])"

text \<open>
  \<open>Monitor.prev\<close>: \<open>prev_miss\<close> is the inner loop that computes \<open>miss\<close>. The increment of
  \<open>Miss\<close> stands under \<open>prev.Miss < m.MaxMiss\<close> and cannot leave the 64 bits.
\<close>

definition prev_miss :: "Message list \<Rightarrow> Message \<Rightarrow> bool" where
  "prev_miss latest prev =
     fold (\<lambda>next miss. if Freq next = Freq prev then False else miss) latest True"

fun prev_loop :: "Monitor \<Rightarrow> Message list \<Rightarrow> Message list \<Rightarrow> Message list \<Rightarrow> Message list" where
  "prev_loop m latest [] result = result"
| "prev_loop m latest (prev # rest) result =
     (if prev_miss latest prev \<and> Miss prev < MaxMiss m
      then prev_loop m latest rest (result @ [prev\<lparr>Miss := Miss prev + 1\<rparr>])
      else prev_loop m latest rest result)"

definition Monitor_prev :: "Monitor \<Rightarrow> Message list \<Rightarrow> Message list" where
  "Monitor_prev m latest = latest @ prev_loop m latest (targets m) []"

text \<open>
  \<open>Monitor.Read\<close> returns the result and leaves the monitor changed: the model returns
  both. \<open>Read_samples\<close> is the buffer after the first three lines, \<open>Read_latest\<close> the
  value of \<open>m.next(signal)\<close> on it.
\<close>

definition Read_samples :: "Monitor \<Rightarrow> real list \<Rightarrow> panic + real list" where
  "Read_samples m signal =
     (let appended = samples m @ signal
      in if int (length appended) > MaxHold m
         then (case go_div (int (length signal)) (FrameShift (STFT (Decoder m))) of
                 Inl e \<Rightarrow> Inl e
               | Inr frames \<Rightarrow> slice_from appended (frames * FrameShift (STFT (Decoder m))))
         else Inr appended)"

definition Read_latest :: "Monitor \<Rightarrow> real list \<Rightarrow> panic + Message list" where
  "Read_latest m signal =
     (case Read_samples m signal of
        Inl e \<Rightarrow> Inl e
      | Inr held \<Rightarrow> Monitor_next (m\<lparr>samples := held\<rparr>) signal)"

definition Monitor_Read :: "Monitor \<Rightarrow> real list \<Rightarrow> panic + Message list \<times> Monitor" where
  "Monitor_Read m signal =
     (case Read_samples m signal of
        Inl e \<Rightarrow> Inl e
      | Inr held \<Rightarrow>
          (case Monitor_next (m\<lparr>samples := held\<rparr>) signal of
             Inl e \<Rightarrow> Inl e
           | Inr latest \<Rightarrow>
               (let result = Monitor_prev (m\<lparr>samples := held\<rparr>) latest
                in Inr (result, m\<lparr>samples := held, targets := result\<rparr>))))"

text \<open>
  The fields \<open>samples\<close> and \<open>targets\<close> are not exported: a monitor starts with both empty
  (as \<open>DefaultMonitor\<close> builds it) and only \<open>Read\<close> changes them.
\<close>

inductive reachable :: "Monitor \<Rightarrow> bool" where
  start: "samples m = [] \<Longrightarrow> targets m = [] \<Longrightarrow> reachable m"
| step: "reachable m \<Longrightarrow> Monitor_Read m signal = Inr (result, m') \<Longrightarrow> reachable m'"

text \<open>
  \<open>Read_fresh\<close> is what the wide decoder returns within a \<open>Read\<close>, before the merge
  pass. \<open>Reads\<close> pushes a sequence of blocks through \<open>Read\<close>.
\<close>

definition Read_fresh :: "Monitor \<Rightarrow> real list \<Rightarrow> panic + Message list" where
  "Read_fresh m signal =
     (case Read_samples m signal of
        Inl e \<Rightarrow> Inl e
      | Inr held \<Rightarrow> Decoder_Read (wide m) held)"

fun Reads :: "Monitor \<Rightarrow> real list list \<Rightarrow> panic + Monitor" where
  "Reads m [] = Inr m"
| "Reads m (signal # rest) =
     (case Monitor_Read m signal of
        Inl e \<Rightarrow> Inl e
      | Inr (result, m') \<Rightarrow> Reads m' rest)"

text \<open>
  A cycle is silent for a bin when no message of \<open>m.next(signal)\<close>, the fresh
  detections that \<open>Monitor.prev\<close> compares the targets with, has that \<open>Freq\<close>.
  \<open>silent_cycles f m signals\<close> runs \<open>Read\<close> on the blocks in turn, as long as each
  cycle is silent for \<open>f\<close>, and gives what the last \<open>Read\<close> returned.
\<close>

definition silent :: "int \<Rightarrow> Monitor \<Rightarrow> real list \<Rightarrow> bool" where
  "silent f m signal =
     (case Read_latest m signal of
        Inl e \<Rightarrow> False
      | Inr latest \<Rightarrow> list_all (\<lambda>next. Freq next \<noteq> f) latest)"

fun silent_cycles ::
  "int \<Rightarrow> Monitor \<Rightarrow> real list list \<Rightarrow> Message list \<Rightarrow> (Message list \<times> Monitor) option" where
  "silent_cycles f m [] result = Some (result, m)"
| "silent_cycles f m (signal # rest) result =
     (if silent f m signal
      then (case Monitor_Read m signal of
              Inl e \<Rightarrow> None
            | Inr (result', m') \<Rightarrow> silent_cycles f m' rest result')
      else None)"

section \<open>An example run\<close>

text \<open>
  The inputs of the examples below. \<open>two_carriers\<close> is a transform with one frame per
  sample and four bins: the sample's magnitude on bins 0 and 2 (two carriers keyed
  alike) and a floor of 1 on bins 1 and 3. \<open>dec0\<close> has the settings of
  \<open>DefaultMonitor\<close> but for \<open>Bias\<close> and the sizes of the transform; \<open>mon0\<close> is a fresh
  monitor over it. \<open>keyed\<close> is a block with a tone of three samples after three
  samples without, \<open>quiet\<close> a block without tone, and \<open>brief\<close> an envelope whose
  runs last two frames.
\<close>

definition two_carriers :: "real list \<Rightarrow> real list list" where
  "two_carriers xs = map (\<lambda>x. [x, 1, x, 1]) xs"

definition dec0 :: Decoder where
  "dec0 = \<lparr>Iter = 5, Bias = 0, Band = 0, Gain = 2, Mute = 5, Loud = 1 / 100,
            STFT = \<lparr>FrameShift = 1, FrameLen = 8, Amplitude = two_carriers\<rparr>\<rparr>"

definition mon0 :: Monitor where
  "mon0 = \<lparr>MaxHold = 7, MaxMiss = 1, MaxBand = 2, Decoder = dec0, samples = [], targets = []\<rparr>"

definition keyed :: "real list" where
  "keyed = [1, 1, 1, 100, 100, 100, 1]"

definition brief :: "real list" where
  "brief = [1, 1, 100, 100, 1]"

definition quiet :: "real list" where
  "quiet = [1, 1, 1, 1, 1, 1, 1]"

text \<open>
  The messages of the run: \<open>heard\<close> is a decode of \<open>keyed\<close> as the decoder emits it,
  \<open>target1\<close> the target it becomes in a first cycle, \<open>target2\<close> its merge with a second
  \<open>keyed\<close> block.
\<close>

definition heard :: "int \<Rightarrow> bool \<Rightarrow> Message" where
  "heard f s = \<lparr>Data = keyed, Code = ''.'', Freq = f, Life = 0, Miss = 0, side = s\<rparr>"

definition target1 :: "int \<Rightarrow> Message" where
  "target1 f = \<lparr>Data = keyed, Code = ''.'', Freq = f, Life = 1, Miss = 0, side = False\<rparr>"

definition target2 :: "int \<Rightarrow> Message" where
  "target2 f = \<lparr>Data = keyed @ keyed, Code = ''.-'', Freq = f, Life = 2, Miss = 0, side = False\<rparr>"

definition mon1 :: Monitor where
  "mon1 = mon0\<lparr>samples := keyed, targets := [target1 0, target1 2]\<rparr>"

definition mon2 :: Monitor where
  "mon2 = mon0\<lparr>samples := keyed, targets := [target2 0, target2 2, target2 0, target2 2]\<rparr>"

text \<open>
  \<open>missed\<close> is a target of the first cycle after one silent cycle, \<open>mon_missed\<close> the
  monitor then, and \<open>mon_quiet\<close> a monitor that has read a quiet block only.
\<close>

definition missed :: "int \<Rightarrow> Message" where
  "missed f = \<lparr>Data = keyed, Code = ''.'', Freq = f, Life = 1, Miss = 1, side = False\<rparr>"

definition mon_missed :: Monitor where
  "mon_missed = mon0\<lparr>samples := quiet, targets := [missed 0, missed 2]\<rparr>"

definition mon_quiet :: Monitor where
  "mon_quiet = mon0\<lparr>samples := quiet, targets := []\<rparr>"

text \<open>A monitor with a frame shift of two samples instead.\<close>

definition shift2 :: "Monitor \<Rightarrow> Monitor" where
  "shift2 m = m\<lparr>Decoder := (Decoder m)\<lparr>STFT := (STFT (Decoder m))\<lparr>FrameShift := 2\<rparr>\<rparr>\<rparr>"

text \<open>
  \<open>level n\<close> is a block of \<open>n\<close> samples without tone, and \<open>held2 n\<close> the fresh monitor
  with a frame shift of two once its buffer holds \<open>n\<close> such samples.
\<close>

definition level :: "nat \<Rightarrow> real list" where
  "level n = replicate n 1"

definition held2 :: "nat \<Rightarrow> Monitor" where
  "held2 n = (shift2 mon0)\<lparr>samples := level n, targets := []\<rparr>"

text \<open>The settings of \<open>dec0\<close> that the decoding of these blocks depends on.\<close>

definition like_dec0 :: "Decoder \<Rightarrow> bool" where
  "like_dec0 d \<longleftrightarrow> Gain d = 2 \<and> Mute d = 5 \<and> Bias d = 0 \<and> Loud d = 1 / 100 \<and>
     FrameLen (STFT d) = 8 \<and> Amplitude (STFT d) = two_carriers"

section \<open>Properties of the codec\<close>

lemma init_latin_sample: "init latin_sample = Inr sample_tables"
  by (simp add: init_def latin_sample_def sample_tables_def)

lemma Split_no_sep: "sep \<notin> set s \<Longrightarrow> Split s sep = [s]"
  by (induction s) auto

text \<open>
  When no two lines carry the same code, \<open>init\<close> leaves the two maps inverse to each
  other: a later line overwrites neither the code of an earlier glyph in \<open>reverse\<close>.
\<close>

lemma init_loop_inverse:
  "init_loop lines T = Inr T' \<Longrightarrow> distinct (map tl lines) \<Longrightarrow>
   dom (reverse T) \<inter> set (map tl lines) = {} \<Longrightarrow>
   (\<And>c code. forward T c = Some code \<Longrightarrow> reverse T code = Some c) \<Longrightarrow>
   forward T' c = Some code \<Longrightarrow> reverse T' code = Some c"
proof (induction lines arbitrary: T)
  case Nil
  then show ?case by simp
next
  case (Cons val rest)
  show ?case
  proof (cases val)
    case Nil
    with Cons.prems(1) show ?thesis by simp
  next
    case (Cons g cd)
    let ?T = "T\<lparr>reverse := (reverse T)(cd \<mapsto> rune g), forward := (forward T)(rune g \<mapsto> cd)\<rparr>"
    from Cons.prems(1) Cons have run: "init_loop rest ?T = Inr T'" by simp
    from Cons.prems(2) Cons have d: "distinct (map tl rest)" and nin: "cd \<notin> set (map tl rest)"
      by auto
    from Cons.prems(3) Cons nin have dj: "dom (reverse ?T) \<inter> set (map tl rest) = {}"
      by auto
    from Cons.prems(3) Cons have fresh: "reverse T cd = None"
      by auto
    have inv: "\<And>c code. forward ?T c = Some code \<Longrightarrow> reverse ?T code = Some c"
      using Cons.prems(4) fresh by (auto split: if_splits)
    show ?thesis
      by (rule Cons.IH [OF run d dj inv Cons.prems(5)])
  qed
qed

lemma init_loop_codes:
  "init_loop lines T = Inr T' \<Longrightarrow> forward T' c = Some code \<Longrightarrow>
   forward T c = Some code \<or> code \<in> tl ` set lines"
proof (induction lines arbitrary: T)
  case Nil
  then show ?case by simp
next
  case (Cons val rest)
  then show ?case
    by (cases val) (fastforce split: if_splits)+
qed

lemma well_formed_codes:
  assumes "well_formed lines" and "code \<in> tl ` set lines"
  shows "CHR '' '' \<notin> set code"
proof
  assume sp: "CHR '' '' \<in> set code"
  from assms(2) obtain val where v: "val \<in> set lines" "code = tl val" by auto
  from assms(1) have "list_all (\<lambda>val. val \<noteq> [] \<and>
      list_all (\<lambda>c. c = CHR ''.'' \<or> c = CHR ''-'') (tl val)) lines"
    by (simp add: well_formed_def)
  with v(1) have "list_all (\<lambda>c. c = CHR ''.'' \<or> c = CHR ''-'') (tl val)"
    by (simp add: list_all_iff)
  with v(2) have b: "\<forall>c \<in> set code. c = CHR ''.'' \<or> c = CHR ''-''"
    by (simp add: list_all_iff)
  from bspec [OF b sp] show False by simp
qed

text \<open>
  Claim C8. Round trip of a table character: for a table as the spec describes it (each
  line a glyph and its code of dots and dashes, no two lines with the same code) and
  every character \<open>c\<close> present in it, \<open>CodeToText(TextToCode(string(c)))\<close> is \<open>string(c)\<close>.
\<close>

theorem codec_roundtrip:
  assumes "init lines = Inr T"
    and "well_formed lines"
    and "c \<in> dom (forward T)"
  shows "CodeToText T (TextToCode T [c]) = [c]"
proof -
  from assms(3) obtain code where f: "forward T c = Some code" by auto
  from assms(2) have d: "distinct (map tl lines)" by (simp add: well_formed_def)
  have r: "reverse T code = Some c"
    using init_loop_inverse [OF assms(1) [unfolded init_def] d _ _ f] by simp
  have "code \<in> tl ` set lines"
    using init_loop_codes [OF assms(1) [unfolded init_def] f] by simp
  then have ns: "CHR '' '' \<notin> set code"
    by (rule well_formed_codes [OF assms(2)])
  have "TextToCode T [c] = code"
    by (simp add: TextToCode_def forward_at_def f)
  then show ?thesis
    by (simp add: CodeToText_def Split_no_sep [OF ns] CodeToText_step_def r)
qed

theorem codec_roundtrip_witness:
  "init latin_sample = Inr sample_tables \<and> well_formed latin_sample \<and>
   rune CHR ''S'' \<in> dom (forward sample_tables) \<and>
   CodeToText sample_tables (TextToCode sample_tables [rune CHR ''S'']) = [rune CHR ''S'']"
proof -
  have 1: "init latin_sample = Inr sample_tables" by (rule init_latin_sample)
  have 2: "well_formed latin_sample" by (simp add: well_formed_def latin_sample_def)
  have 3: "rune CHR ''S'' \<in> dom (forward sample_tables)" by (simp add: sample_tables_def)
  from codec_roundtrip [OF 1 2 3] 1 2 3 show ?thesis by simp
qed

text \<open>
  Claim C9, as the code has it. \<open>TextToCode\<close> of the empty string is the empty string.
  \<open>CodeToText\<close> of the empty string is not: \<open>strings.Split\<close> gives one empty token, which
  is looked up like any other, so the result is one character, \<open>?\<close> unless the table
  has an entry with the empty code.
\<close>

theorem empty_codec:
  "TextToCode T [] = [] \<and>
   CodeToText T [] = (case reverse T [] of Some val \<Rightarrow> [val] | None \<Rightarrow> [rune CHR ''?''])"
  by (simp add: TextToCode_def CodeToText_def CodeToText_step_def split: option.split)

theorem empty_codec_witness:
  "TextToCode sample_tables [] = [] \<and> CodeToText sample_tables [] = [rune CHR ''?'']"
  using empty_codec [of sample_tables] by (simp add: sample_tables_def)

text \<open>Claim C9 as stated fails: with the sample table the decoded empty string is \<open>?\<close>.\<close>

theorem empty_codec_counterexample:
  "\<not> (TextToCode sample_tables [] = [] \<and> CodeToText sample_tables [] = [])"
  by (simp add: CodeToText_def CodeToText_step_def sample_tables_def)


section \<open>Properties of the carrier search\<close>

lemma Sum64_sum_list: "Sum64 xs = sum_list xs"
proof -
  have "fold (\<lambda>x s. s + x) xs a = a + sum_list xs" for a :: real
    by (induction xs arbitrary: a) simp_all
  then show ?thesis by (simp add: Sum64_def)
qed

text \<open>
  The code tests for a new maximum first and the spec for a commit first. The order
  does not matter: a value below the level is no new maximum over a top above it.
\<close>

lemma search_loop_spec:
  "search_loop lev bias xs idx st = spec_search_loop lev bias xs idx st"
proof (induction xs arbitrary: idx st)
  case Nil
  then show ?case by (cases st) simp
next
  case (Cons val rest)
  obtain top' pos result where st: "st = (top', pos, result)"
    by (cases st)
  show ?case
    unfolding st using Cons.IH by auto
qed

lemma search_loop_append:
  "search_loop lev bias (xs @ ys) idx st =
   search_loop lev bias ys (idx + length xs) (search_loop lev bias xs idx st)"
proof (induction xs arbitrary: idx st)
  case Nil
  then show ?case by (cases st) simp
next
  case (Cons val rest)
  obtain top' pos result where st: "st = (top', pos, result)"
    by (cases st)
  show ?case
    unfolding st using Cons.IH by simp
qed

lemma search_loop_above:
  "\<forall>y \<in> set ys. \<not> y < lev \<Longrightarrow>
   snd (snd (search_loop lev bias ys idx st)) = snd (snd st)"
proof (induction ys arbitrary: idx st)
  case Nil
  then show ?case by (cases st) simp
next
  case (Cons val rest)
  obtain top' pos result where st: "st = (top', pos, result)"
    by (cases st)
  from Cons.prems have "\<not> val < lev" and "\<forall>y \<in> set rest. \<not> y < lev" by simp_all
  then show ?case
    unfolding st using Cons.IH by simp
qed

text \<open>
  Claim C5. The carrier search takes the level \<open>Loud * sum(dist)\<close> and walks the vector
  as the spec says: it commits \<open>Bias + pos\<close> and resets exactly where the value is below
  the level and the tracked top above it, and keeps the running maximum otherwise. Where
  the vector ends in values that are not below the level, the result is what the walk
  has committed before them: a peak that has not fallen back is not in it.
\<close>

theorem carrier_search:
  "Decoder_search d dist' =
     snd (snd (spec_search_loop (Loud d * sum_list dist') (Bias d) dist' 0 (0, 0, [])))
   \<and> ((\<forall>y \<in> set ys. \<not> y < Loud d * sum_list (xs @ ys)) \<longrightarrow>
        Decoder_search d (xs @ ys) =
          snd (snd (search_loop (Loud d * sum_list (xs @ ys)) (Bias d) xs 0 (0, 0, []))))"
proof
  show "Decoder_search d dist' =
     snd (snd (spec_search_loop (Loud d * sum_list dist') (Bias d) dist' 0 (0, 0, [])))"
    by (simp add: Decoder_search_def Sum64_sum_list search_loop_spec)
  show "(\<forall>y \<in> set ys. \<not> y < Loud d * sum_list (xs @ ys)) \<longrightarrow>
        Decoder_search d (xs @ ys) =
          snd (snd (search_loop (Loud d * sum_list (xs @ ys)) (Bias d) xs 0 (0, 0, [])))"
  proof
    assume above: "\<forall>y \<in> set ys. \<not> y < Loud d * sum_list (xs @ ys)"
    show "Decoder_search d (xs @ ys) =
          snd (snd (search_loop (Loud d * sum_list (xs @ ys)) (Bias d) xs 0 (0, 0, [])))"
      by (simp only: Decoder_search_def Sum64_sum_list search_loop_append
            search_loop_above [OF above])
  qed
qed

text \<open>
  With \<open>Bias = 5\<close> and \<open>Loud = 0.01\<close> the level of \<open>[1, 9, 1, 50, 60]\<close> is 1.21: the peak
  at index 1 is committed as bin 6, the peak at the end of the vector is not.
\<close>

theorem carrier_search_witness:
  "Decoder_search (dec0\<lparr>Bias := 5\<rparr>) [1, 9, 1, 50, 60] = [6] \<and>
   snd (snd (spec_search_loop (Loud (dec0\<lparr>Bias := 5\<rparr>) * sum_list [1, 9, 1, 50, 60])
               (Bias (dec0\<lparr>Bias := 5\<rparr>)) [1, 9, 1, 50, 60] 0 (0, 0, []))) = [6] \<and>
   snd (snd (search_loop (Loud (dec0\<lparr>Bias := 5\<rparr>) * sum_list ([1, 9, 1] @ [50, 60]))
               (Bias (dec0\<lparr>Bias := 5\<rparr>)) [1, 9, 1] 0 (0, 0, []))) = [6]"
proof -
  let ?d = "dec0\<lparr>Bias := 5\<rparr>"
  have h: "\<forall>y \<in> set [50, 60 :: real]. \<not> y < Loud ?d * sum_list ([1, 9, 1] @ [50, 60])"
    by (simp add: dec0_def)
  have a: "Decoder_search ?d [1, 9, 1, 50, 60] = [6]"
    by (simp add: Decoder_search_def dec0_def Sum64_def wrap64_def)
  have a': "Decoder_search ?d ([1, 9, 1] @ [50, 60]) = [6]"
    by (simp add: a)
  note c = carrier_search [of ?d "[1, 9, 1, 50, 60]" "[50, 60]" "[1, 9, 1]"]
  from c have c1: "Decoder_search ?d [1, 9, 1, 50, 60] =
     snd (snd (spec_search_loop (Loud ?d * sum_list [1, 9, 1, 50, 60]) (Bias ?d)
                 [1, 9, 1, 50, 60] 0 (0, 0, [])))"
    by (rule conjunct1)
  from c h have c2: "Decoder_search ?d ([1, 9, 1] @ [50, 60]) =
     snd (snd (search_loop (Loud ?d * sum_list ([1, 9, 1] @ [50, 60])) (Bias ?d)
                 [1, 9, 1] 0 (0, 0, [])))"
    by blast
  have b: "snd (snd (spec_search_loop (Loud ?d * sum_list [1, 9, 1, 50, 60]) (Bias ?d)
               [1, 9, 1, 50, 60] 0 (0, 0, []))) = [6]"
    by (rule trans [OF c1 [symmetric] a])
  have c: "snd (snd (search_loop (Loud ?d * sum_list ([1, 9, 1] @ [50, 60])) (Bias ?d)
               [1, 9, 1] 0 (0, 0, []))) = [6]"
    by (rule trans [OF c2 [symmetric] a'])
  show ?thesis
    by (rule conjI [OF a conjI [OF b c]])
qed


section \<open>Properties of \<open>detect\<close>\<close>

lemma detect_fields:
  "Freq (Decoder_detect d signal) = 0" "Life (Decoder_detect d signal) = 0"
  "Miss (Decoder_detect d signal) = 0" "\<not> side (Decoder_detect d signal)"
  "Data (Decoder_detect d signal) = signal"
  unfolding Decoder_detect_def Let_def by simp_all

lemma binary_noise:
  "Max64 (means_m (binary_gmm d signal)) \<le> Mute d * Min64 (means_m (binary_gmm d signal)) \<Longrightarrow>
   Decoder_binary d signal = []"
  unfolding Decoder_binary_def Let_def by simp

lemma detect_Code:
  "Code (Decoder_detect d signal) =
     (if 1 \<le> length (detect_tones (Decoder_binary d signal))
      then (if Min64 (means_m (detect_gmm d (Decoder_binary d signal))) > MIN_RELIABLE_DOT
            then detect_symbols (detect_gmm d (Decoder_binary d signal)) (Decoder_binary d signal)
            else [])
      else [])"
  unfolding Decoder_detect_def Let_def by simp

lemma detect_noise:
  assumes "Max64 (means_m (binary_gmm d signal)) \<le> Mute d * Min64 (means_m (binary_gmm d signal))"
  shows "Decoder_detect d signal =
     \<lparr>Data = signal, Code = [], Freq = 0, Life = 0, Miss = 0, side = False\<rparr>"
proof -
  from assms have "Decoder_binary d signal = []"
    by (rule binary_noise)
  then show ?thesis
    unfolding Decoder_detect_def Let_def by (simp add: detect_tones_def)
qed

text \<open>
  Claim C7. When the larger mean of the mixture over the rescaled samples is at most
  \<open>Mute\<close> times the smaller one, \<open>detect\<close> returns a message with empty \<open>Code\<close> whose
  \<open>Data\<close> is the whole input envelope.
\<close>

theorem noise_bin:
  "Max64 (means_m (binary_gmm d signal)) \<le> Mute d * Min64 (means_m (binary_gmm d signal)) \<Longrightarrow>
   Code (Decoder_detect d signal) = [] \<and> Data (Decoder_detect d signal) = signal"
  by (simp add: detect_Code detect_fields binary_noise detect_tones_def)

lemma fold_append_concat:
  "fold (\<lambda>s code. code @ f s) xs acc = acc @ concat (map f xs)"
  by (induction xs arbitrary: acc) simp_all

lemma concat_map_nonempty: "x \<in> set xs \<Longrightarrow> f x \<noteq> [] \<Longrightarrow> concat (map f xs) \<noteq> []"
  by (induction xs) auto

text \<open>A key-down step contributes a dot or a dash, so an accepted decode is not empty.\<close>

lemma detect_symbols_nonempty:
  assumes "detect_tones steps \<noteq> []"
  shows "detect_symbols gmm steps \<noteq> []"
proof -
  from assms obtain s where s: "s \<in> set (spanned steps)" "step_down s"
    by (auto simp: detect_tones_def filter_empty_conv)
  have "step_tone s (means_class gmm (step_span s)) \<noteq> []"
    by (simp add: step_tone_def)
  with s have "(if step_down s then step_tone s (means_class gmm (step_span s))
       else step_mute s (means_extra gmm (step_span s))) \<noteq> []"
    by simp
  from concat_map_nonempty [OF s(1), of "\<lambda>s. if step_down s then step_tone s (means_class gmm (step_span s))
       else step_mute s (means_extra gmm (step_span s))", OF this]
  show ?thesis
    unfolding detect_symbols_def fold_append_concat by simp
qed

text \<open>
  Claim C6, as the code has it. For an envelope whose steps yield at least one key-down
  duration, \<open>detect\<close> leaves \<open>Code\<close> empty exactly when the smaller mean of the duration
  mixture is at most \<open>MIN_RELIABLE_DOT\<close> (the test is \<open>Min64(gmm.m) > MIN_RELIABLE_DOT\<close>);
  when it is greater, \<open>Code\<close> is the symbols of all steps after the first.
\<close>

theorem unreliable_timing:
  assumes "detect_tones (Decoder_binary d signal) \<noteq> []"
  shows "(Code (Decoder_detect d signal) = [] \<longleftrightarrow>
            Min64 (means_m (detect_gmm d (Decoder_binary d signal))) \<le> MIN_RELIABLE_DOT)
       \<and> (MIN_RELIABLE_DOT < Min64 (means_m (detect_gmm d (Decoder_binary d signal))) \<longrightarrow>
            Code (Decoder_detect d signal) =
              detect_symbols (detect_gmm d (Decoder_binary d signal)) (Decoder_binary d signal))"
proof -
  from assms have len: "1 \<le> length (detect_tones (Decoder_binary d signal))"
    by (cases "detect_tones (Decoder_binary d signal)") simp_all
  have ne: "detect_symbols (detect_gmm d (Decoder_binary d signal)) (Decoder_binary d signal) \<noteq> []"
    by (rule detect_symbols_nonempty [OF assms])
  show ?thesis
    unfolding detect_Code using len ne by (simp add: not_less)
qed

subsection \<open>The decoder on the example blocks\<close>

lemma funpow_fixed: "f x = x \<Longrightarrow> (f ^^ n) x = x"
  by (induction n) simp_all

text \<open>Means that one iteration leaves alone are what \<open>optimize\<close> returns.\<close>

lemma optimize_fixed:
  assumes "means_refine \<lparr>means_X = X, means_m = [lo, hi]\<rparr> = \<lparr>means_X = X, means_m = [lo, hi]\<rparr>"
    and "Min64 X = lo" and "Max64 X = hi" and "lo \<le> hi"
  shows "means_optimize iter \<lparr>means_X = X, means_m = ms\<rparr> = \<lparr>means_X = X, means_m = [lo, hi]\<rparr>"
  using assms by (simp add: means_optimize_def funpow_fixed means_sorted_def)

lemma detect_eval:
  assumes "Decoder_binary d signal = steps"
    and "detect_tones steps = tones" and "tones \<noteq> []"
    and "means_optimize (Iter d) \<lparr>means_X = tones, means_m = []\<rparr> = gmm"
    and "MIN_RELIABLE_DOT < Min64 (means_m gmm)"
    and "detect_symbols gmm steps = code"
  shows "Decoder_detect d signal =
     \<lparr>Data = signal, Code = code, Freq = 0, Life = 0, Miss = 0, side = False\<rparr>"
proof -
  from assms(3) have "1 \<le> length tones" by (cases tones) simp_all
  then show ?thesis
    unfolding Decoder_detect_def Let_def detect_gmm_def assms(1) assms(2) assms(4)
    using assms(5,6) by simp
qed

lemma binary_eval:
  assumes "rescale d signal = key"
    and "means_optimize (Iter d) \<lparr>means_X = key, means_m = []\<rparr> = gmm"
    and "Mute d * Min64 (means_m gmm) < Max64 (means_m gmm)"
    and "means_steps gmm = steps"
  shows "Decoder_binary d signal = steps"
  unfolding Decoder_binary_def Let_def binary_gmm_def assms(1) assms(2)
  using assms(3,4) by simp

lemmas means_eval = means_refine_def means_class_def average_def Sum64_def Min64_def Max64_def

lemma gmm_keyed:
  "means_optimize iter \<lparr>means_X = [2, 2, 2, 100, 100, 100, 2], means_m = []\<rparr> =
    \<lparr>means_X = [2, 2, 2, 100, 100, 100, 2], means_m = [2, 100]\<rparr>"
  by (rule optimize_fixed) (simp_all add: means_eval)

lemma gmm_keyed2:
  "means_optimize iter
     \<lparr>means_X = [2, 2, 2, 100, 100, 100, 2, 2, 2, 2, 100, 100, 100, 2], means_m = []\<rparr> =
    \<lparr>means_X = [2, 2, 2, 100, 100, 100, 2, 2, 2, 2, 100, 100, 100, 2], means_m = [2, 100]\<rparr>"
  by (rule optimize_fixed) (simp_all add: means_eval)

lemma gmm_brief:
  "means_optimize iter \<lparr>means_X = [2, 2, 100, 100, 2], means_m = []\<rparr> =
    \<lparr>means_X = [2, 2, 100, 100, 2], means_m = [2, 100]\<rparr>"
  by (rule optimize_fixed) (simp_all add: means_eval)

lemma gmm_quiet:
  "means_optimize iter \<lparr>means_X = [1, 1, 1, 1, 1, 1, 1], means_m = []\<rparr> =
    \<lparr>means_X = [1, 1, 1, 1, 1, 1, 1], means_m = [1, 1]\<rparr>"
  by (rule optimize_fixed) (simp_all add: means_eval)

lemma gmm_three: "means_optimize iter \<lparr>means_X = [3], means_m = []\<rparr> =
    \<lparr>means_X = [3], means_m = [3, 3]\<rparr>"
  by (rule optimize_fixed) (simp_all add: means_eval)

lemma gmm_three_four: "means_optimize iter \<lparr>means_X = [3, 4], means_m = []\<rparr> =
    \<lparr>means_X = [3, 4], means_m = [3, 4]\<rparr>"
  by (rule optimize_fixed) (simp_all add: means_eval)

lemma gmm_two: "means_optimize iter \<lparr>means_X = [2], means_m = []\<rparr> =
    \<lparr>means_X = [2], means_m = [2, 2]\<rparr>"
  by (rule optimize_fixed) (simp_all add: means_eval)

lemma binary_keyed:
  assumes "Gain d = 2" "Mute d = 5"
  shows "Decoder_binary d keyed =
     [\<lparr>step_time = 0, step_down = False, step_span = 0\<rparr>,
      \<lparr>step_time = 3, step_down = True, step_span = 0\<rparr>,
      \<lparr>step_time = 6, step_down = False, step_span = 0\<rparr>]"
proof (rule binary_eval)
  let ?g = "\<lparr>means_X = [2, 2, 2, 100, 100, 100, 2], means_m = [2, 100]\<rparr>"
  show "rescale d keyed = [2, 2, 2, 100, 100, 100, 2]"
    by (simp add: rescale_def keyed_def assms Max64_def)
  show "means_optimize (Iter d) \<lparr>means_X = [2, 2, 2, 100, 100, 100, 2], means_m = []\<rparr> = ?g"
    by (rule gmm_keyed)
  show "Mute d * Min64 (means_m ?g) < Max64 (means_m ?g)"
    by (simp add: assms Min64_def Max64_def)
  show "means_steps ?g =
     [\<lparr>step_time = 0, step_down = False, step_span = 0\<rparr>,
      \<lparr>step_time = 3, step_down = True, step_span = 0\<rparr>,
      \<lparr>step_time = 6, step_down = False, step_span = 0\<rparr>]"
    by (simp add: means_steps_def means_class_def)
qed

lemma tones_keyed:
  "detect_tones [\<lparr>step_time = 0, step_down = False, step_span = 0\<rparr>,
      \<lparr>step_time = 3, step_down = True, step_span = 0\<rparr>,
      \<lparr>step_time = 6, step_down = False, step_span = 0\<rparr>] = [3]"
  by (simp add: detect_tones_def)

lemma symbols_keyed:
  "detect_symbols \<lparr>means_X = [3], means_m = [3, 3]\<rparr>
      [\<lparr>step_time = 0, step_down = False, step_span = 0\<rparr>,
       \<lparr>step_time = 3, step_down = True, step_span = 0\<rparr>,
       \<lparr>step_time = 6, step_down = False, step_span = 0\<rparr>] = ''.''"
  by (simp add: detect_symbols_def step_tone_def step_mute_def means_class_def means_extra_def)

lemma detect_keyed:
  assumes "Gain d = 2" "Mute d = 5"
  shows "Decoder_detect d keyed = heard 0 False"
  unfolding heard_def
proof (rule detect_eval)
  show "Decoder_binary d keyed =
     [\<lparr>step_time = 0, step_down = False, step_span = 0\<rparr>,
      \<lparr>step_time = 3, step_down = True, step_span = 0\<rparr>,
      \<lparr>step_time = 6, step_down = False, step_span = 0\<rparr>]"
    by (rule binary_keyed [OF assms])
  show "detect_tones [\<lparr>step_time = 0, step_down = False, step_span = 0\<rparr>,
      \<lparr>step_time = 3, step_down = True, step_span = 0\<rparr>,
      \<lparr>step_time = 6, step_down = False, step_span = 0\<rparr>] = [3]"
    by (rule tones_keyed)
  show "[3 :: real] \<noteq> []" by simp
  show "means_optimize (Iter d) \<lparr>means_X = [3], means_m = []\<rparr> = \<lparr>means_X = [3], means_m = [3, 3]\<rparr>"
    by (rule gmm_three)
  show "MIN_RELIABLE_DOT < Min64 (means_m \<lparr>means_X = [3], means_m = [3, 3]\<rparr>)"
    by (simp add: MIN_RELIABLE_DOT_def Min64_def)
  show "detect_symbols \<lparr>means_X = [3], means_m = [3, 3]\<rparr>
      [\<lparr>step_time = 0, step_down = False, step_span = 0\<rparr>,
       \<lparr>step_time = 3, step_down = True, step_span = 0\<rparr>,
       \<lparr>step_time = 6, step_down = False, step_span = 0\<rparr>] = ''.''"
    by (rule symbols_keyed)
qed

lemma binary_keyed2:
  assumes "Gain d = 2" "Mute d = 5"
  shows "Decoder_binary d (keyed @ keyed) =
     [\<lparr>step_time = 0, step_down = False, step_span = 0\<rparr>,
      \<lparr>step_time = 3, step_down = True, step_span = 0\<rparr>,
      \<lparr>step_time = 6, step_down = False, step_span = 0\<rparr>,
      \<lparr>step_time = 10, step_down = True, step_span = 0\<rparr>,
      \<lparr>step_time = 13, step_down = False, step_span = 0\<rparr>]"
proof (rule binary_eval)
  let ?g = "\<lparr>means_X = [2, 2, 2, 100, 100, 100, 2, 2, 2, 2, 100, 100, 100, 2], means_m = [2, 100]\<rparr>"
  show "rescale d (keyed @ keyed) = [2, 2, 2, 100, 100, 100, 2, 2, 2, 2, 100, 100, 100, 2]"
    by (simp add: rescale_def keyed_def assms Max64_def)
  show "means_optimize (Iter d)
     \<lparr>means_X = [2, 2, 2, 100, 100, 100, 2, 2, 2, 2, 100, 100, 100, 2], means_m = []\<rparr> = ?g"
    by (rule gmm_keyed2)
  show "Mute d * Min64 (means_m ?g) < Max64 (means_m ?g)"
    by (simp add: assms Min64_def Max64_def)
  show "means_steps ?g =
     [\<lparr>step_time = 0, step_down = False, step_span = 0\<rparr>,
      \<lparr>step_time = 3, step_down = True, step_span = 0\<rparr>,
      \<lparr>step_time = 6, step_down = False, step_span = 0\<rparr>,
      \<lparr>step_time = 10, step_down = True, step_span = 0\<rparr>,
      \<lparr>step_time = 13, step_down = False, step_span = 0\<rparr>]"
    by (simp add: means_steps_def means_class_def)
qed

lemma detect_keyed2:
  assumes "Gain d = 2" "Mute d = 5"
  shows "Decoder_detect d (keyed @ keyed) =
     \<lparr>Data = keyed @ keyed, Code = ''.-'', Freq = 0, Life = 0, Miss = 0, side = False\<rparr>"
proof (rule detect_eval)
  let ?steps = "[\<lparr>step_time = 0, step_down = False, step_span = 0\<rparr>,
      \<lparr>step_time = 3, step_down = True, step_span = 0\<rparr>,
      \<lparr>step_time = 6, step_down = False, step_span = 0\<rparr>,
      \<lparr>step_time = 10, step_down = True, step_span = 0\<rparr>,
      \<lparr>step_time = 13, step_down = False, step_span = 0\<rparr>]"
  show "Decoder_binary d (keyed @ keyed) = ?steps"
    by (rule binary_keyed2 [OF assms])
  show "detect_tones ?steps = [3, 4]"
    by (simp add: detect_tones_def)
  show "[3, 4 :: real] \<noteq> []" by simp
  show "means_optimize (Iter d) \<lparr>means_X = [3, 4], means_m = []\<rparr> = \<lparr>means_X = [3, 4], means_m = [3, 4]\<rparr>"
    by (rule gmm_three_four)
  show "MIN_RELIABLE_DOT < Min64 (means_m \<lparr>means_X = [3, 4], means_m = [3, 4]\<rparr>)"
    by (simp add: MIN_RELIABLE_DOT_def Min64_def)
  show "detect_symbols \<lparr>means_X = [3, 4], means_m = [3, 4]\<rparr> ?steps = ''.-''"
    by (simp add: detect_symbols_def step_tone_def step_mute_def means_class_def means_extra_def)
qed

lemma binary_gmm_quiet:
  "Gain d = 2 \<Longrightarrow> binary_gmm d quiet = \<lparr>means_X = [1, 1, 1, 1, 1, 1, 1], means_m = [1, 1]\<rparr>"
proof -
  assume "Gain d = 2"
  then have "rescale d quiet = [1, 1, 1, 1, 1, 1, 1]"
    by (simp add: rescale_def quiet_def Max64_def)
  then show ?thesis
    by (simp add: binary_gmm_def gmm_quiet)
qed

lemma noise_quiet:
  assumes "Gain d = 2" "Mute d = 5"
  shows "Max64 (means_m (binary_gmm d quiet)) \<le> Mute d * Min64 (means_m (binary_gmm d quiet))"
  by (simp add: binary_gmm_quiet assms Max64_def Min64_def)

lemma detect_quiet:
  assumes "Gain d = 2" "Mute d = 5"
  shows "Decoder_detect d quiet =
     \<lparr>Data = quiet, Code = [], Freq = 0, Life = 0, Miss = 0, side = False\<rparr>"
  by (rule detect_noise [OF noise_quiet [OF assms]])

lemma dec0_settings: "Gain dec0 = 2" "Mute dec0 = 5"
  by (simp_all add: dec0_def)

text \<open>The quiet block is a noise bin for \<open>dec0\<close>: both means are 1.\<close>

theorem noise_bin_witness:
  "Max64 (means_m (binary_gmm dec0 quiet)) \<le> Mute dec0 * Min64 (means_m (binary_gmm dec0 quiet)) \<and>
   Code (Decoder_detect dec0 quiet) = [] \<and> Data (Decoder_detect dec0 quiet) = quiet"
proof -
  have h: "Max64 (means_m (binary_gmm dec0 quiet)) \<le> Mute dec0 * Min64 (means_m (binary_gmm dec0 quiet))"
    by (rule noise_quiet [OF dec0_settings])
  from noise_bin [OF h] h show ?thesis by (intro conjI) simp_all
qed

text \<open>The keyed block has one key-down duration, 3 frames: its decode is a dot.\<close>

theorem unreliable_timing_witness:
  "detect_tones (Decoder_binary dec0 keyed) \<noteq> [] \<and>
   MIN_RELIABLE_DOT < Min64 (means_m (detect_gmm dec0 (Decoder_binary dec0 keyed))) \<and>
   Code (Decoder_detect dec0 keyed) =
     detect_symbols (detect_gmm dec0 (Decoder_binary dec0 keyed)) (Decoder_binary dec0 keyed) \<and>
   Code (Decoder_detect dec0 keyed) = ''.''"
proof -
  note b = binary_keyed [OF dec0_settings]
  have t: "detect_tones (Decoder_binary dec0 keyed) \<noteq> []"
    unfolding b tones_keyed by simp
  have g: "detect_gmm dec0 (Decoder_binary dec0 keyed) = \<lparr>means_X = [3], means_m = [3, 3]\<rparr>"
    unfolding detect_gmm_def b tones_keyed by (rule gmm_three)
  have m: "MIN_RELIABLE_DOT < Min64 (means_m (detect_gmm dec0 (Decoder_binary dec0 keyed)))"
    unfolding g by (simp add: MIN_RELIABLE_DOT_def Min64_def)
  from unreliable_timing [OF t] m
  have c: "Code (Decoder_detect dec0 keyed) =
     detect_symbols (detect_gmm dec0 (Decoder_binary dec0 keyed)) (Decoder_binary dec0 keyed)"
    by blast
  have s: "detect_symbols (detect_gmm dec0 (Decoder_binary dec0 keyed)) (Decoder_binary dec0 keyed) = ''.''"
    unfolding g unfolding b by (rule symbols_keyed)
  from c s have "Code (Decoder_detect dec0 keyed) = ''.''" by (rule trans)
  with t m c show ?thesis by (intro conjI)
qed

text \<open>
  Claim C6 as stated fails where the smaller mean is exactly 2: the runs of \<open>brief\<close> last
  two frames, the mixture of its one key-down duration has both means at 2, which is
  not below \<open>MIN_RELIABLE_DOT\<close>, and \<open>detect\<close> rejects the decode all the same.
\<close>

lemma binary_brief:
  "Decoder_binary dec0 brief =
     [\<lparr>step_time = 0, step_down = False, step_span = 0\<rparr>,
      \<lparr>step_time = 2, step_down = True, step_span = 0\<rparr>,
      \<lparr>step_time = 4, step_down = False, step_span = 0\<rparr>]"
proof (rule binary_eval)
  let ?g = "\<lparr>means_X = [2, 2, 100, 100, 2], means_m = [2, 100]\<rparr>"
  show "rescale dec0 brief = [2, 2, 100, 100, 2]"
    by (simp add: rescale_def brief_def dec0_def Max64_def)
  show "means_optimize (Iter dec0) \<lparr>means_X = [2, 2, 100, 100, 2], means_m = []\<rparr> = ?g"
    by (rule gmm_brief)
  show "Mute dec0 * Min64 (means_m ?g) < Max64 (means_m ?g)"
    by (simp add: dec0_def Min64_def Max64_def)
  show "means_steps ?g =
     [\<lparr>step_time = 0, step_down = False, step_span = 0\<rparr>,
      \<lparr>step_time = 2, step_down = True, step_span = 0\<rparr>,
      \<lparr>step_time = 4, step_down = False, step_span = 0\<rparr>]"
    by (simp add: means_steps_def means_class_def)
qed

lemma tones_brief: "detect_tones (Decoder_binary dec0 brief) = [2]"
  by (simp add: binary_brief detect_tones_def)

lemma min_brief: "Min64 (means_m (detect_gmm dec0 (Decoder_binary dec0 brief))) = 2"
  by (simp add: detect_gmm_def tones_brief gmm_two Min64_def)

theorem unreliable_timing_counterexample:
  "detect_tones (Decoder_binary dec0 brief) \<noteq> [] \<and>
   \<not> Min64 (means_m (detect_gmm dec0 (Decoder_binary dec0 brief))) < MIN_RELIABLE_DOT \<and>
   Code (Decoder_detect dec0 brief) = []"
  by (simp add: detect_Code tones_brief min_brief MIN_RELIABLE_DOT_def)



section \<open>Properties of the merge pass\<close>

lemma next_merge_Inr:
  assumes "next_merge m signal prev next = Inr merged"
  obtains frames where
    "go_div (int (length signal)) (FrameShift (STFT (Decoder m))) = Inr frames"
    "0 \<le> int (length (Data next)) - frames" "0 \<le> frames"
    "merged = (Decoder_detect (Decoder m)
                 (Data prev @ drop (nat (int (length (Data next)) - frames)) (Data next)))
                \<lparr>Freq := Freq prev, Life := Life prev\<rparr>"
  using assms
  by (auto simp: next_merge_def slice_from_def split: sum.splits if_splits)

lemma next_merge_fields:
  assumes "next_merge m signal prev next = Inr merged"
  shows "Freq merged = Freq prev" "Life merged = Life prev" "Miss merged = 0" "\<not> side merged"
  using assms by (auto elim!: next_merge_Inr simp: detect_fields)

lemma next_targets_fields:
  "next_targets m signal ts next = Inr merged \<Longrightarrow>
   Freq merged = Freq next \<and> (Miss next = 0 \<longrightarrow> Miss merged = 0) \<and>
   (side merged \<longrightarrow> merged = next)"
proof (induction ts arbitrary: "next")
  case Nil
  then show ?case by simp
next
  case (Cons prev rest)
  show ?case
  proof (cases "Freq next = Freq prev")
    case True
    with Cons.prems obtain mg where mg: "next_merge m signal prev next = Inr mg"
      and run: "next_targets m signal rest mg = Inr merged"
      by (auto split: sum.splits)
    from Cons.IH [OF run] next_merge_fields [OF mg] True show ?thesis
      by auto
  next
    case False
    with Cons.prems have "next_targets m signal rest next = Inr merged" by simp
    from Cons.IH [OF this] show ?thesis .
  qed
qed







lemma next_loop_result:
  "next_loop m signal fresh acc = Inr out \<Longrightarrow>
   \<exists>new. out = acc @ new \<and>
     (\<forall>x \<in> set new. \<not> side x \<and> Freq x \<in> Freq ` set fresh) \<and>
     ((\<forall>x \<in> set fresh. Miss x = 0) \<longrightarrow> (\<forall>x \<in> set new. Miss x = 0)) \<and>
     (distinct (map Freq fresh) \<longrightarrow> distinct (map Freq new))"
proof (induction fresh arbitrary: acc)
  case Nil
  then show ?case by simp
next
  case (Cons nx rest)
  from Cons.prems obtain mg where mg: "next_targets m signal (targets m) nx = Inr mg"
    and run: "next_loop m signal rest
       (if \<not> side mg then acc @ [mg\<lparr>Life := wrap64 (Life mg + 1)\<rparr>] else acc) = Inr out"
    by (auto split: sum.splits)
  note f = next_targets_fields [OF mg]
  from Cons.IH [OF run] obtain new where new:
    "out = (if \<not> side mg then acc @ [mg\<lparr>Life := wrap64 (Life mg + 1)\<rparr>] else acc) @ new"
    "\<forall>x \<in> set new. \<not> side x \<and> Freq x \<in> Freq ` set rest"
    "(\<forall>x \<in> set rest. Miss x = 0) \<longrightarrow> (\<forall>x \<in> set new. Miss x = 0)"
    "distinct (map Freq rest) \<longrightarrow> distinct (map Freq new)"
    by blast
  show ?case
  proof (cases "side mg")
    case True
    with new show ?thesis by (intro exI [of _ new]) auto
  next
    case False
    let ?e = "mg\<lparr>Life := wrap64 (Life mg + 1)\<rparr>"
    have "out = acc @ (?e # new)" using new(1) False by simp
    moreover have "\<forall>x \<in> set (?e # new). \<not> side x \<and> Freq x \<in> Freq ` set (nx # rest)"
      using new(2) False f by auto
    moreover have "(\<forall>x \<in> set (nx # rest). Miss x = 0) \<longrightarrow> (\<forall>x \<in> set (?e # new). Miss x = 0)"
      using new(3) f by auto
    moreover have "distinct (map Freq (nx # rest)) \<longrightarrow> distinct (map Freq (?e # new))"
      using new(2,4) f by auto
    ultimately show ?thesis by blast
  qed
qed

lemma Read_bin_fields: "x \<in> set (Read_bin d spec dist' idx n) \<Longrightarrow> Miss x = 0"
  by (auto simp: Read_bin_def Let_def detect_fields split: if_splits)

lemma Decoder_Read_Miss:
  "Decoder_Read d signal = Inr fresh \<Longrightarrow> x \<in> set fresh \<Longrightarrow> Miss x = 0"
  by (auto simp: Decoder_Read_def Let_def Read_bin_fields split: if_splits sum.splits)

lemma Monitor_next_result:
  assumes "Monitor_next m signal = Inr latest"
  shows "\<forall>x \<in> set latest. \<not> side x \<and> Miss x = 0"
proof -
  from assms obtain fresh where fresh: "Decoder_Read (wide m) (samples m) = Inr fresh"
    and run: "next_loop m signal fresh [] = Inr latest"
    by (auto simp: Monitor_next_def split: sum.splits)
  from Decoder_Read_Miss [OF fresh] have "\<forall>x \<in> set fresh. Miss x = 0" by blast
  with next_loop_result [OF run] show ?thesis by auto
qed

lemma prev_miss_iff: "prev_miss latest prev \<longleftrightarrow> Freq prev \<notin> Freq ` set latest"
proof -
  have "fold (\<lambda>next miss. if Freq next = Freq prev then False else miss) latest b
        \<longleftrightarrow> b \<and> Freq prev \<notin> Freq ` set latest" for b
    by (induction latest arbitrary: b) auto
  then show ?thesis by (simp add: prev_miss_def)
qed

lemma prev_loop_eq:
  "prev_loop m latest ts acc =
   acc @ map (\<lambda>p. p\<lparr>Miss := Miss p + 1\<rparr>)
          (filter (\<lambda>p. prev_miss latest p \<and> Miss p < MaxMiss m) ts)"
  by (induction ts arbitrary: acc) simp_all

lemma Monitor_prev_eq:
  "Monitor_prev m latest =
   latest @ map (\<lambda>p. p\<lparr>Miss := Miss p + 1\<rparr>)
              (filter (\<lambda>p. Freq p \<notin> Freq ` set latest \<and> Miss p < MaxMiss m) (targets m))"
  by (simp add: Monitor_prev_def prev_loop_eq prev_miss_iff)

lemma Monitor_Read_Inr:
  assumes "Monitor_Read m signal = Inr (result, m')"
  obtains held latest where
    "Read_samples m signal = Inr held"
    "Monitor_next (m\<lparr>samples := held\<rparr>) signal = Inr latest"
    "Read_latest m signal = Inr latest"
    "result = latest @ map (\<lambda>p. p\<lparr>Miss := Miss p + 1\<rparr>)
              (filter (\<lambda>p. Freq p \<notin> Freq ` set latest \<and> Miss p < MaxMiss m) (targets m))"
    "m' = m\<lparr>samples := held, targets := result\<rparr>"
  using assms
  by (auto simp: Monitor_Read_def Read_latest_def Let_def Monitor_prev_eq split: sum.splits)


section \<open>Properties of the target table\<close>

lemma Read_result_mem:
  assumes "Monitor_Read m signal = Inr (result, m')"
  shows "\<exists>latest. Read_latest m signal = Inr latest \<and>
    (\<forall>x \<in> set latest. \<not> side x \<and> Miss x = 0) \<and>
    (\<forall>x. x \<in> set result \<longleftrightarrow>
       x \<in> set latest \<or>
       (\<exists>p \<in> set (targets m). Freq p \<notin> Freq ` set latest \<and> Miss p < MaxMiss m \<and>
          x = p\<lparr>Miss := Miss p + 1\<rparr>))"
proof -
  from assms obtain held latest where
    nx: "Monitor_next (m\<lparr>samples := held\<rparr>) signal = Inr latest"
    and lt: "Read_latest m signal = Inr latest"
    and r: "result = latest @ map (\<lambda>p. p\<lparr>Miss := Miss p + 1\<rparr>)
              (filter (\<lambda>p. Freq p \<notin> Freq ` set latest \<and> Miss p < MaxMiss m) (targets m))"
    by (rule Monitor_Read_Inr)
  have "\<forall>x. x \<in> set result \<longleftrightarrow>
       x \<in> set latest \<or>
       (\<exists>p \<in> set (targets m). Freq p \<notin> Freq ` set latest \<and> Miss p < MaxMiss m \<and>
          x = p\<lparr>Miss := Miss p + 1\<rparr>)"
    unfolding r by auto
  with lt Monitor_next_result [OF nx] show ?thesis by blast
qed

lemma Read_sides:
  assumes "Monitor_Read m signal = Inr (result, m')"
    and "\<forall>x \<in> set (targets m). \<not> side x"
  shows "\<forall>x \<in> set result. \<not> side x"
proof
  fix x assume x: "x \<in> set result"
  from Read_result_mem [OF assms(1)] obtain latest where
    lt: "Read_latest m signal = Inr latest"
    and z: "\<forall>x \<in> set latest. \<not> side x \<and> Miss x = 0"
    and mem': "\<forall>x. x \<in> set result \<longleftrightarrow>
       x \<in> set latest \<or>
       (\<exists>p \<in> set (targets m). Freq p \<notin> Freq ` set latest \<and> Miss p < MaxMiss m \<and>
          x = p\<lparr>Miss := Miss p + 1\<rparr>)"
    by blast
  note mem = mem' [rule_format]
  from x mem [of x] consider "x \<in> set latest"
    | p where "p \<in> set (targets m)" "x = p\<lparr>Miss := Miss p + 1\<rparr>"
    by blast
  then show "\<not> side x"
  proof cases
    case 1
    with z show ?thesis by simp
  next
    case 2
    with assms(2) show ?thesis by simp
  qed
qed

lemma Read_targets:
  "Monitor_Read m signal = Inr (result, m') \<Longrightarrow>
   targets m' = result \<and> MaxMiss m' = MaxMiss m \<and> MaxHold m' = MaxHold m \<and> Decoder m' = Decoder m"
  by (erule Monitor_Read_Inr) simp

lemma reachable_sides: "reachable m \<Longrightarrow> \<forall>x \<in> set (targets m). \<not> side x"
proof (induction rule: reachable.induct)
  case (start m)
  then show ?case by simp
next
  case (step m signal result m')
  from Read_sides [OF step.hyps(2) step.IH] Read_targets [OF step.hyps(2)]
  show ?case by simp
qed

lemma reachable_DefaultMonitor: "reachable (DefaultMonitor transform rate)"
  by (rule reachable.start) (simp_all add: DefaultMonitor_def)

text \<open>
  Claim C2. For every monitor state that \<open>Read\<close> calls lead to and every input block,
  each message that \<open>Monitor.Read\<close> returns has \<open>side = false\<close>.
\<close>

theorem no_side_returned:
  assumes "reachable m" and "Monitor_Read m signal = Inr (result, m')"
  shows "\<forall>x \<in> set result. \<not> side x"
  by (rule Read_sides [OF assms(2) reachable_sides [OF assms(1)]])

text \<open>All targets on one bin have missed equally often.\<close>

lemma Read_Miss_same:
  assumes "Monitor_Read m signal = Inr (result, m')"
    and "\<forall>x \<in> set (targets m). \<forall>y \<in> set (targets m). Freq x = Freq y \<longrightarrow> Miss x = Miss y"
  shows "\<forall>x \<in> set result. \<forall>y \<in> set result. Freq x = Freq y \<longrightarrow> Miss x = Miss y"
proof (intro ballI impI)
  fix x y assume x: "x \<in> set result" and y: "y \<in> set result" and f: "Freq x = Freq y"
  from Read_result_mem [OF assms(1)] obtain latest where
    lt: "Read_latest m signal = Inr latest"
    and z: "\<forall>x \<in> set latest. \<not> side x \<and> Miss x = 0"
    and mem': "\<forall>x. x \<in> set result \<longleftrightarrow>
       x \<in> set latest \<or>
       (\<exists>p \<in> set (targets m). Freq p \<notin> Freq ` set latest \<and> Miss p < MaxMiss m \<and>
          x = p\<lparr>Miss := Miss p + 1\<rparr>)"
    by blast
  note mem = mem' [rule_format]
  show "Miss x = Miss y"
  proof (cases "x \<in> set latest")
    case True
    then have fx: "Freq x \<in> Freq ` set latest" by simp
    have "y \<in> set latest"
    proof (rule ccontr)
      assume "y \<notin> set latest"
      with y mem [of y] obtain q where "Freq q \<notin> Freq ` set latest" "y = q\<lparr>Miss := Miss q + 1\<rparr>"
        by blast
      with fx f show False by simp
    qed
    with True z show ?thesis by simp
  next
    case False
    with x mem [of x] obtain p where p: "p \<in> set (targets m)" "Freq p \<notin> Freq ` set latest"
      "x = p\<lparr>Miss := Miss p + 1\<rparr>"
      by blast
    have "y \<notin> set latest"
    proof
      assume "y \<in> set latest"
      then have "Freq y \<in> Freq ` set latest" by simp
      with p f show False by simp
    qed
    with y mem [of y] obtain q where q: "q \<in> set (targets m)" "y = q\<lparr>Miss := Miss q + 1\<rparr>"
      by blast
    from f p(3) q(2) have "Freq p = Freq q" by simp
    with assms(2) p(1) q(1) have "Miss p = Miss q" by blast
    with p(3) q(2) show ?thesis by simp
  qed
qed

lemma reachable_Miss_same:
  "reachable m \<Longrightarrow>
   \<forall>x \<in> set (targets m). \<forall>y \<in> set (targets m). Freq x = Freq y \<longrightarrow> Miss x = Miss y"
proof (induction rule: reachable.induct)
  case (start m)
  then show ?case by simp
next
  case (step m signal result m')
  from Read_targets [OF step.hyps(2)] have t: "targets m' = result" by simp
  show ?case
    unfolding t by (rule Read_Miss_same [OF step.hyps(2) step.IH])
qed

lemma Read_Miss_bound:
  assumes "Monitor_Read m signal = Inr (result, m')" and "0 \<le> MaxMiss m"
  shows "\<forall>x \<in> set result. Miss x \<le> MaxMiss m"
proof
  fix x assume x: "x \<in> set result"
  from Read_result_mem [OF assms(1)] obtain latest where
    lt: "Read_latest m signal = Inr latest"
    and z: "\<forall>x \<in> set latest. \<not> side x \<and> Miss x = 0"
    and mem': "\<forall>x. x \<in> set result \<longleftrightarrow>
       x \<in> set latest \<or>
       (\<exists>p \<in> set (targets m). Freq p \<notin> Freq ` set latest \<and> Miss p < MaxMiss m \<and>
          x = p\<lparr>Miss := Miss p + 1\<rparr>)"
    by blast
  note mem = mem' [rule_format]
  from x mem [of x] consider "x \<in> set latest"
    | p where "Miss p < MaxMiss m" "x = p\<lparr>Miss := Miss p + 1\<rparr>"
    by blast
  then show "Miss x \<le> MaxMiss m"
  proof cases
    case 1
    with z assms(2) show ?thesis by simp
  next
    case 2
    then show ?thesis by simp
  qed
qed

lemma reachable_Miss_bound:
  "reachable m \<Longrightarrow> 0 \<le> MaxMiss m \<Longrightarrow> \<forall>x \<in> set (targets m). Miss x \<le> MaxMiss m"
proof (induction rule: reachable.induct)
  case (start m)
  then show ?case by simp
next
  case (step m signal result m')
  from Read_targets [OF step.hyps(2)] step.prems have "0 \<le> MaxMiss m" by simp
  from Read_Miss_bound [OF step.hyps(2) this] Read_targets [OF step.hyps(2)]
  show ?case by simp
qed

subsection \<open>Silent cycles\<close>

lemma silent_step:
  assumes "Monitor_Read m signal = Inr (result, m')" and "silent f m signal"
  shows "prev \<in> set (targets m) \<Longrightarrow> Freq prev = f \<Longrightarrow> Miss prev < MaxMiss m \<Longrightarrow>
           prev\<lparr>Miss := Miss prev + 1\<rparr> \<in> set result"
    and "x \<in> set result \<Longrightarrow> Freq x = f \<Longrightarrow>
           \<exists>p \<in> set (targets m). Freq p = f \<and> Miss p < MaxMiss m \<and> x = p\<lparr>Miss := Miss p + 1\<rparr>"
proof -
  from Read_result_mem [OF assms(1)] obtain latest where
    lt: "Read_latest m signal = Inr latest"
    and z: "\<forall>x \<in> set latest. \<not> side x \<and> Miss x = 0"
    and mem': "\<forall>x. x \<in> set result \<longleftrightarrow>
       x \<in> set latest \<or>
       (\<exists>p \<in> set (targets m). Freq p \<notin> Freq ` set latest \<and> Miss p < MaxMiss m \<and>
          x = p\<lparr>Miss := Miss p + 1\<rparr>)"
    by blast
  note mem = mem' [rule_format]
  from assms(2) lt have nf: "f \<notin> Freq ` set latest"
    by (auto simp: silent_def list_all_iff)
  show "prev\<lparr>Miss := Miss prev + 1\<rparr> \<in> set result"
    if "prev \<in> set (targets m)" "Freq prev = f" "Miss prev < MaxMiss m"
    using that nf mem [of "prev\<lparr>Miss := Miss prev + 1\<rparr>"] by blast
  show "\<exists>p \<in> set (targets m). Freq p = f \<and> Miss p < MaxMiss m \<and> x = p\<lparr>Miss := Miss p + 1\<rparr>"
    if x: "x \<in> set result" "Freq x = f"
  proof -
    from x nf have "x \<notin> set latest" by auto
    with x(1) mem [of x] obtain p where p: "p \<in> set (targets m)" "Miss p < MaxMiss m"
      "x = p\<lparr>Miss := Miss p + 1\<rparr>"
      by blast
    with x(2) have "Freq p = f" by simp
    with p show ?thesis by blast
  qed
qed

lemma silent_cycles_Cons:
  assumes "silent_cycles f m (signal # rest) r0 = Some (result, m')"
  obtains r1 m1 where "Monitor_Read m signal = Inr (r1, m1)" "silent f m signal"
    "silent_cycles f m1 rest r1 = Some (result, m')"
  using assms by (auto split: if_splits sum.splits)

lemma silent_cycles_present:
  "silent_cycles f m signals r0 = Some (result, m') \<Longrightarrow> signals \<noteq> [] \<Longrightarrow>
   prev \<in> set (targets m) \<Longrightarrow> Freq prev = f \<Longrightarrow>
   Miss prev + int (length signals) \<le> MaxMiss m \<Longrightarrow>
   prev\<lparr>Miss := Miss prev + int (length signals)\<rparr> \<in> set result"
proof (induction signals arbitrary: m r0 prev)
  case Nil
  then show ?case by simp
next
  case (Cons signal rest)
  from Cons.prems(1) obtain r1 m1 where rd: "Monitor_Read m signal = Inr (r1, m1)"
    and sl: "silent f m signal" and run: "silent_cycles f m1 rest r1 = Some (result, m')"
    by (rule silent_cycles_Cons)
  from Cons.prems(5) have lt: "Miss prev < MaxMiss m" by simp
  let ?p = "prev\<lparr>Miss := Miss prev + 1\<rparr>"
  have p1: "?p \<in> set r1"
    by (rule silent_step(1) [OF rd sl Cons.prems(3,4) lt])
  note t = Read_targets [OF rd]
  show ?case
  proof (cases "rest = []")
    case True
    with run p1 show ?thesis by simp
  next
    case False
    have "?p\<lparr>Miss := Miss ?p + int (length rest)\<rparr> \<in> set result"
    proof (rule Cons.IH [OF run False])
      show "?p \<in> set (targets m1)" using p1 t by simp
      show "Freq ?p = f" using Cons.prems(4) by simp
      show "Miss ?p + int (length rest) \<le> MaxMiss m1" using Cons.prems(5) t by simp
    qed
    then show ?thesis by (simp add: ac_simps)
  qed
qed

lemma silent_cycles_bound:
  "silent_cycles f m signals r0 = Some (result, m') \<Longrightarrow> signals \<noteq> [] \<Longrightarrow>
   \<forall>x \<in> set (targets m). Freq x = f \<longrightarrow> j \<le> Miss x \<Longrightarrow>
   \<forall>x \<in> set result. Freq x = f \<longrightarrow> j + int (length signals) \<le> Miss x \<and> Miss x \<le> MaxMiss m"
proof (induction signals arbitrary: m r0 j)
  case Nil
  then show ?case by simp
next
  case (Cons signal rest)
  from Cons.prems(1) obtain r1 m1 where rd: "Monitor_Read m signal = Inr (r1, m1)"
    and sl: "silent f m signal" and run: "silent_cycles f m1 rest r1 = Some (result, m')"
    by (rule silent_cycles_Cons)
  note t = Read_targets [OF rd]
  have one: "\<forall>x \<in> set r1. Freq x = f \<longrightarrow> j + 1 \<le> Miss x \<and> Miss x \<le> MaxMiss m"
  proof (intro ballI impI)
    fix x assume "x \<in> set r1" "Freq x = f"
    from silent_step(2) [OF rd sl this] Cons.prems(3)
    show "j + 1 \<le> Miss x \<and> Miss x \<le> MaxMiss m" by auto
  qed
  show ?case
  proof (cases "rest = []")
    case True
    with run one show ?thesis by simp
  next
    case False
    have "\<forall>x \<in> set (targets m1). Freq x = f \<longrightarrow> j + 1 \<le> Miss x"
      using one t by simp
    from Cons.IH [OF run False this] t show ?thesis
      by (auto simp: ac_simps)
  qed
qed

text \<open>
  Claim C3. Take a target \<open>prev\<close> in the table of a monitor that \<open>Read\<close> calls have led
  to, and a run of cycles in none of which a fresh detection shares its \<open>Freq\<close>. As long
  as the counter stays within \<open>MaxMiss\<close>, the target is in the result with \<open>Miss\<close>
  raised by one per cycle; once the counter would pass \<open>MaxMiss\<close>, no message on that
  \<open>Freq\<close> is in the result: a target detected last with \<open>Miss = 0\<close> is gone after
  \<open>MaxMiss + 1\<close> silent cycles. No target of the table has \<open>Miss > MaxMiss\<close> (for a
  \<open>MaxMiss\<close> that is not negative: a fresh target has \<open>Miss = 0\<close>).
\<close>

theorem target_expiry:
  assumes "reachable m"
  shows "(prev \<in> set (targets m) \<and> signals \<noteq> [] \<and>
          silent_cycles (Freq prev) m signals [] = Some (result, m') \<longrightarrow>
            (Miss prev + int (length signals) \<le> MaxMiss m \<longrightarrow>
               prev\<lparr>Miss := Miss prev + int (length signals)\<rparr> \<in> set result) \<and>
            (MaxMiss m < Miss prev + int (length signals) \<longrightarrow>
               (\<forall>x \<in> set result. Freq x \<noteq> Freq prev)))
       \<and> (0 \<le> MaxMiss m \<longrightarrow> (\<forall>x \<in> set (targets m). Miss x \<le> MaxMiss m))"
proof (intro conjI impI)
  assume h: "prev \<in> set (targets m) \<and> signals \<noteq> [] \<and>
          silent_cycles (Freq prev) m signals [] = Some (result, m')"
  then have p: "prev \<in> set (targets m)" and ne: "signals \<noteq> []"
    and run: "silent_cycles (Freq prev) m signals [] = Some (result, m')"
    by simp_all
  {
    assume "Miss prev + int (length signals) \<le> MaxMiss m"
    from silent_cycles_present [OF run ne p refl this]
    show "prev\<lparr>Miss := Miss prev + int (length signals)\<rparr> \<in> set result" .
  }
  {
    assume gt: "MaxMiss m < Miss prev + int (length signals)"
    have "\<forall>x \<in> set (targets m). Freq x = Freq prev \<longrightarrow> Miss prev \<le> Miss x"
    proof (intro ballI impI)
      fix x assume "x \<in> set (targets m)" "Freq x = Freq prev"
      with reachable_Miss_same [OF assms] p have "Miss x = Miss prev" by blast
      then show "Miss prev \<le> Miss x" by simp
    qed
    from silent_cycles_bound [OF run ne this]
    have b: "\<forall>x \<in> set result. Freq x = Freq prev \<longrightarrow>
        Miss prev + int (length signals) \<le> Miss x \<and> Miss x \<le> MaxMiss m" .
    show "\<forall>x \<in> set result. Freq x \<noteq> Freq prev"
    proof (intro ballI notI)
      fix x assume "x \<in> set result" "Freq x = Freq prev"
      with b have "Miss prev + int (length signals) \<le> Miss x" "Miss x \<le> MaxMiss m"
        by blast+
      with gt show False by simp
    qed
  }
next
  assume "0 \<le> MaxMiss m"
  from reachable_Miss_bound [OF assms this]
  show "\<forall>x \<in> set (targets m). Miss x \<le> MaxMiss m" .
qed


section \<open>Distinct targets\<close>

text \<open>
  Claim C10, as the code has it. The code never removes a second message on a \<open>Freq\<close>:
  where the targets have pairwise distinct \<open>Freq\<close> and the messages of the wide
  decoder in a \<open>Read\<close> have too, the targets after the \<open>Read\<close> have pairwise distinct
  \<open>Freq\<close>.
\<close>

theorem targets_distinct:
  assumes "Monitor_Read m signal = Inr (result, m')"
    and "Read_fresh m signal = Inr fresh"
    and "distinct (map Freq fresh)"
    and "distinct (map Freq (targets m))"
  shows "distinct (map Freq (targets m'))"
proof -
  from assms(1) obtain held latest where
    hd: "Read_samples m signal = Inr held"
    and nx: "Monitor_next (m\<lparr>samples := held\<rparr>) signal = Inr latest"
    and r: "result = latest @ map (\<lambda>p. p\<lparr>Miss := Miss p + 1\<rparr>)
              (filter (\<lambda>p. Freq p \<notin> Freq ` set latest \<and> Miss p < MaxMiss m) (targets m))"
    and m': "m' = m\<lparr>samples := held, targets := result\<rparr>"
    by (rule Monitor_Read_Inr)
  from assms(2) hd have "Decoder_Read (wide m) held = Inr fresh"
    by (simp add: Read_fresh_def)
  with nx have "next_loop (m\<lparr>samples := held\<rparr>) signal fresh [] = Inr latest"
    by (simp add: Monitor_next_def wide_def)
  from next_loop_result [OF this] assms(3) have dl: "distinct (map Freq latest)"
    by auto
  let ?P = "\<lambda>p. Freq p \<notin> Freq ` set latest \<and> Miss p < MaxMiss m"
  have mf: "map Freq (map (\<lambda>p. p\<lparr>Miss := Miss p + 1\<rparr>) (filter ?P (targets m))) =
            map Freq (filter ?P (targets m))"
    by simp
  have dc: "distinct (map Freq (filter ?P (targets m)))"
    by (rule distinct_map_filter [OF assms(4)])
  have dj: "set (map Freq latest) \<inter> set (map Freq (filter ?P (targets m))) = {}"
    by (auto simp: image_iff)
  have "distinct (map Freq result)"
    unfolding r map_append mf using dl dc dj by (simp only: distinct_append simp_thms)
  then show ?thesis by (simp add: m')
qed

section \<open>Properties of the rolling buffer\<close>

lemma sdiv_mult_dvd:
  fixes n b :: int
  assumes "b dvd n"
  shows "n sdiv b * b = n"
proof -
  from assms have "\<bar>n\<bar> mod \<bar>b\<bar> = 0" by simp
  then have "n smod b = 0" by (simp add: signed_modulo_int_def)
  with sdiv_mult_smod_eq [of n b] show ?thesis by simp
qed

lemma Read_samples_Inr:
  assumes "Read_samples m signal = Inr held"
  shows "(int (length (samples m @ signal)) \<le> MaxHold m \<and> held = samples m @ signal) \<or>
     (MaxHold m < int (length (samples m @ signal)) \<and> FrameShift (STFT (Decoder m)) \<noteq> 0 \<and>
      0 \<le> int (length signal) sdiv FrameShift (STFT (Decoder m)) * FrameShift (STFT (Decoder m)) \<and>
      int (length signal) sdiv FrameShift (STFT (Decoder m)) * FrameShift (STFT (Decoder m))
        \<le> int (length (samples m @ signal)) \<and>
      held = drop (nat (int (length signal) sdiv FrameShift (STFT (Decoder m))
                          * FrameShift (STFT (Decoder m)))) (samples m @ signal))"
  using assms
  by (auto simp: Read_samples_def Let_def go_div_def slice_from_def split: if_splits sum.splits)

lemma Read_samples_of:
  "Monitor_Read m signal = Inr (result, m') \<Longrightarrow> Read_samples m signal = Inr (samples m')"
  by (erule Monitor_Read_Inr) simp

lemma Read_held_bound:
  assumes "Monitor_Read m signal = Inr (result, m')"
    and "int (length (samples m)) \<le> MaxHold m"
    and "FrameShift (STFT (Decoder m)) dvd int (length signal)"
  shows "int (length (samples m')) \<le> MaxHold m'"
proof -
  note s = Read_samples_Inr [OF Read_samples_of [OF assms(1)]]
  note t = Read_targets [OF assms(1)]
  from s show ?thesis
  proof
    assume "int (length (samples m @ signal)) \<le> MaxHold m \<and> samples m' = samples m @ signal"
    with t show ?thesis by simp
  next
    assume a: "MaxHold m < int (length (samples m @ signal)) \<and> FrameShift (STFT (Decoder m)) \<noteq> 0 \<and>
      0 \<le> int (length signal) sdiv FrameShift (STFT (Decoder m)) * FrameShift (STFT (Decoder m)) \<and>
      int (length signal) sdiv FrameShift (STFT (Decoder m)) * FrameShift (STFT (Decoder m))
        \<le> int (length (samples m @ signal)) \<and>
      samples m' = drop (nat (int (length signal) sdiv FrameShift (STFT (Decoder m))
                          * FrameShift (STFT (Decoder m)))) (samples m @ signal)"
    have e: "int (length signal) sdiv FrameShift (STFT (Decoder m)) * FrameShift (STFT (Decoder m))
             = int (length signal)"
      by (rule sdiv_mult_dvd [OF assms(3)])
    from a have "samples m' = drop (length signal) (samples m @ signal)"
      unfolding e by simp
    then have "length (samples m') = length (samples m)" by simp
    with assms(2) t show ?thesis by simp
  qed
qed

lemma Reads_held_bound:
  "Reads m signals = Inr m' \<Longrightarrow> int (length (samples m)) \<le> MaxHold m \<Longrightarrow>
   \<forall>signal \<in> set signals. FrameShift (STFT (Decoder m)) dvd int (length signal) \<Longrightarrow>
   int (length (samples m')) \<le> MaxHold m'"
proof (induction signals arbitrary: m)
  case Nil
  then show ?case by simp
next
  case (Cons signal rest)
  from Cons.prems(1) obtain r1 m1 where rd: "Monitor_Read m signal = Inr (r1, m1)"
    and run: "Reads m1 rest = Inr m'"
    by (auto split: sum.splits)
  from Cons.prems(3) have d: "FrameShift (STFT (Decoder m)) dvd int (length signal)" by simp
  note t = Read_targets [OF rd]
  show ?case
  proof (rule Cons.IH [OF run])
    show "int (length (samples m1)) \<le> MaxHold m1"
      by (rule Read_held_bound [OF rd Cons.prems(2) d])
    show "\<forall>signal \<in> set rest. FrameShift (STFT (Decoder m1)) dvd int (length signal)"
      using Cons.prems(3) t by simp
  qed
qed

lemma Read_trim:
  assumes "Monitor_Read m signal = Inr (result, m')"
    and "MaxHold m < int (length (samples m @ signal))"
  shows "\<exists>removed. samples m @ signal = removed @ samples m' \<and>
           int (length removed) =
             int (length signal) sdiv FrameShift (STFT (Decoder m)) * FrameShift (STFT (Decoder m))"
proof -
  let ?n = "int (length signal) sdiv FrameShift (STFT (Decoder m)) * FrameShift (STFT (Decoder m))"
  from Read_samples_Inr [OF Read_samples_of [OF assms(1)]] assms(2)
  have a: "0 \<le> ?n" "?n \<le> int (length (samples m @ signal))"
    "samples m' = drop (nat ?n) (samples m @ signal)"
    by auto
  let ?removed = "take (nat ?n) (samples m @ signal)"
  have "samples m @ signal = ?removed @ samples m'"
    unfolding a(3) by (rule append_take_drop_id [symmetric])
  moreover have "int (length ?removed) = ?n"
    using a(1,2) by simp
  ultimately show ?thesis by blast
qed

text \<open>
  Claim C4, as the code has it. \<open>Read\<close> trims the buffer by the whole frames of the new
  block, \<open>len(signal) / frame_shift * frame_shift\<close> samples, not by what exceeds
  \<open>MaxHold\<close>. For blocks whose lengths are whole multiples of \<open>frame_shift\<close>, a buffer
  within \<open>MaxHold\<close> stays within \<open>MaxHold\<close> after every \<open>Read\<close>; and whenever a \<open>Read\<close>
  trims, the number of samples removed from the head is
  \<open>(len(signal) / frame_shift) * frame_shift\<close> (Go's division of integers, here
  \<open>sdiv\<close>), a whole multiple of \<open>frame_shift\<close>.
\<close>

theorem rolling_buffer:
  "(Reads m signals = Inr m' \<and> int (length (samples m)) \<le> MaxHold m \<and>
    (\<forall>signal \<in> set signals. FrameShift (STFT (Decoder m)) dvd int (length signal)) \<longrightarrow>
      int (length (samples m')) \<le> MaxHold m')
   \<and> (Monitor_Read m signal = Inr (result, m1) \<and> MaxHold m < int (length (samples m @ signal)) \<longrightarrow>
        (\<exists>removed. samples m @ signal = removed @ samples m1 \<and>
           int (length removed) =
             int (length signal) sdiv FrameShift (STFT (Decoder m))
               * FrameShift (STFT (Decoder m)) \<and>
           FrameShift (STFT (Decoder m)) dvd int (length removed)))"
proof -
  have "\<exists>removed. samples m @ signal = removed @ samples m1 \<and>
           int (length removed) =
             int (length signal) sdiv FrameShift (STFT (Decoder m))
               * FrameShift (STFT (Decoder m)) \<and>
           FrameShift (STFT (Decoder m)) dvd int (length removed)"
    if "Monitor_Read m signal = Inr (result, m1)"
      and "MaxHold m < int (length (samples m @ signal))"
  proof -
    from Read_trim [OF that] obtain removed where
      r: "samples m @ signal = removed @ samples m1"
         "int (length removed) =
             int (length signal) sdiv FrameShift (STFT (Decoder m))
               * FrameShift (STFT (Decoder m))"
      by blast
    from r(2) have "FrameShift (STFT (Decoder m)) dvd int (length removed)"
      by simp
    with r show ?thesis by blast
  qed
  with Reads_held_bound [of m signals m'] show ?thesis by blast
qed

section \<open>The example run\<close>

lemma len_blocks: "length keyed = 7" "length quiet = 7"
  by (simp_all add: keyed_def quiet_def)

lemma like_dec0: "like_dec0 dec0"
  by (simp add: like_dec0_def dec0_def)

lemma like_wide: "like_dec0 (Decoder m) \<Longrightarrow> like_dec0 (wide m)"
  by (simp add: like_dec0_def wide_def)

lemma heard_fields:
  "Freq (heard f s) = f" "side (heard f s) = s" "Life (heard f s) = 0" "Data (heard f s) = keyed"
  by (simp_all add: heard_def)

lemma target1_fields:
  "Freq (target1 f) = f" "Life (target1 f) = 1" "Data (target1 f) = keyed" "Miss (target1 f) = 0"
  by (simp_all add: target1_def)

lemma target2_fields: "Freq (target2 f) = f" "side (target2 f) = False"
  by (simp_all add: target2_def)

lemma missed_fields: "Freq (missed f) = f" "Miss (missed f) = 1"
  by (simp_all add: missed_def)

lemma heard_Life: "(heard f False)\<lparr>Life := wrap64 1\<rparr> = target1 f"
  by (simp add: heard_def target1_def wrap64_def)

lemma merged_Life:
  "\<lparr>Data = keyed @ keyed, Code = ''.-'', Freq = f, Life = wrap64 2, Miss = 0, side = False\<rparr>
     = target2 f"
  by (simp add: target2_def wrap64_def)

lemma target1_missed: "(target1 f)\<lparr>Miss := 1\<rparr> = missed f"
  by (simp add: target1_def missed_def)

subsection \<open>The wide decoder on the blocks\<close>

lemma upto_band2: "[- 2 .. 2 :: int] = [- 2, - 1, 0, 1, 2]"
  by (simp add: upto.simps)

lemma upto_band0: "[- 0 .. 0 :: int] = [0]"
  by (simp add: upto.simps)

lemma bins_keyed:
  "map (\<lambda>s. s ! 0) (two_carriers keyed) = keyed"
  "map (\<lambda>s. s ! Suc 0) (two_carriers keyed) = quiet"
  "map (\<lambda>s. s ! 2) (two_carriers keyed) = keyed"
  "map (\<lambda>s. s ! 3) (two_carriers keyed) = quiet"
  by (simp_all add: two_carriers_def keyed_def quiet_def)

lemma dist_keyed:
  "Bias d = 0 \<Longrightarrow>
   Read_dist d (two_carriers keyed) [0, 0, 0, 0] = Inr [30004, 7, 30004, 7]"
  by (simp add: two_carriers_def keyed_def slice_def)

lemma search_keyed:
  "Bias d = 0 \<Longrightarrow> Loud d = 1 / 100 \<Longrightarrow> Decoder_search d [30004, 7, 30004, 7] = [0, 2]"
  by (simp add: Decoder_search_def Sum64_def wrap64_def)

lemma read_bin_tone:
  assumes "Gain d = 2" "Mute d = 5"
    and "map (\<lambda>s. s ! nat (clip (wrap64 (idx + n)) 0 (int (length dist') - 1))) spec = keyed"
  shows "Read_bin d spec dist' idx n = [heard (wrap64 (idx + n)) (n \<noteq> 0)]"
  unfolding Read_bin_def Let_def assms(3) detect_keyed [OF assms(1,2)]
  by (simp add: heard_def)

lemma read_bin_floor:
  assumes "Gain d = 2" "Mute d = 5"
    and "map (\<lambda>s. s ! nat (clip (wrap64 (idx + n)) 0 (int (length dist') - 1))) spec = quiet"
  shows "Read_bin d spec dist' idx n = []"
  unfolding Read_bin_def Let_def assms(3) detect_quiet [OF assms(1,2)]
  by simp

lemma half_frame: "FrameLen (STFT d) = 8 \<Longrightarrow> FrameLen (STFT d) sdiv 2 = 4"
  by (simp add: signed_divide_int_def)

lemma replicate4:
  "replicate (nat 4) (0 :: real) = [0, 0, 0, 0]" "replicate 4 (0 :: real) = [0, 0, 0, 0]"
  by (simp_all add: eval_nat_numeral)

lemma Read_keyed:
  assumes "like_dec0 d" and "Band d = 2"
  shows "Decoder_Read d keyed =
     Inr [heard (- 2) True, heard (- 1) True, heard 0 False, heard 2 True,
          heard 0 True, heard 2 False]"
proof -
  from assms(1) have c: "Gain d = 2" "Mute d = 5" "Bias d = 0" "Loud d = 1 / 100"
    "FrameLen (STFT d) = 8" "Amplitude (STFT d) = two_carriers"
    by (simp_all add: like_dec0_def)
  let ?spec = "two_carriers keyed"
  let ?dist = "[30004, 7, 30004, 7 :: real]"
  note tone = read_bin_tone [OF c(1,2), of _ _ ?dist ?spec]
  note floor = read_bin_floor [OF c(1,2), of _ _ ?dist ?spec]
  have b: "Read_bin d ?spec ?dist 0 (- 2) = [heard (- 2) True]"
    "Read_bin d ?spec ?dist 0 (- 1) = [heard (- 1) True]"
    "Read_bin d ?spec ?dist 0 0 = [heard 0 False]"
    "Read_bin d ?spec ?dist 0 1 = []"
    "Read_bin d ?spec ?dist 0 2 = [heard 2 True]"
    "Read_bin d ?spec ?dist 2 (- 2) = [heard 0 True]"
    "Read_bin d ?spec ?dist 2 (- 1) = []"
    "Read_bin d ?spec ?dist 2 0 = [heard 2 False]"
    "Read_bin d ?spec ?dist 2 1 = []"
    "Read_bin d ?spec ?dist 2 2 = []"
    using tone [of 0 "- 2"] tone [of 0 "- 1"] tone [of 0 0] floor [of 0 1] tone [of 0 2]
      tone [of 2 "- 2"] floor [of 2 "- 1"] tone [of 2 0] floor [of 2 1] floor [of 2 2]
    by (simp_all add: clip_def wrap64_def bins_keyed)
  show ?thesis
    unfolding Decoder_Read_def Let_def half_frame [OF c(5)] assms(2) c(6) upto_band2
    by (simp add: replicate4 dist_keyed [OF c(3)] search_keyed [OF c(3,4)] b)
qed

lemma Read_keyed_narrow:
  assumes "like_dec0 d" and "Band d = 0"
  shows "Decoder_Read d keyed = Inr [heard 0 False, heard 2 False]"
proof -
  from assms(1) have c: "Gain d = 2" "Mute d = 5" "Bias d = 0" "Loud d = 1 / 100"
    "FrameLen (STFT d) = 8" "Amplitude (STFT d) = two_carriers"
    by (simp_all add: like_dec0_def)
  let ?spec = "two_carriers keyed"
  let ?dist = "[30004, 7, 30004, 7 :: real]"
  note tone = read_bin_tone [OF c(1,2), of _ _ ?dist ?spec]
  have b: "Read_bin d ?spec ?dist 0 0 = [heard 0 False]"
    "Read_bin d ?spec ?dist 2 0 = [heard 2 False]"
    using tone [of 0 0] tone [of 2 0]
    by (simp_all add: clip_def wrap64_def bins_keyed)
  show ?thesis
    unfolding Decoder_Read_def Let_def half_frame [OF c(5)] assms(2) c(6) upto_band0
    by (simp add: replicate4 dist_keyed [OF c(3)] search_keyed [OF c(3,4)] b)
qed

text \<open>Without a tone all bins are level, and the search commits nothing.\<close>

lemma Read_flat:
  assumes "like_dec0 d" and "signal = quiet \<or> signal = quiet @ [1]"
  shows "Decoder_Read d signal = Inr []"
proof -
  from assms(1) have c: "Bias d = 0" "Loud d = 1 / 100" "FrameLen (STFT d) = 8"
    "Amplitude (STFT d) = two_carriers"
    by (simp_all add: like_dec0_def)
  from assms(2) have "\<exists>v. Read_dist d (two_carriers signal) [0, 0, 0, 0] = Inr [v, v, v, v] \<and> 0 < v"
    by (auto simp: two_carriers_def quiet_def slice_def c)
  then obtain v where dist: "Read_dist d (two_carriers signal) [0, 0, 0, 0] = Inr [v, v, v, v]"
    and v: "0 < v" by blast
  have "Decoder_search d [v, v, v, v] = []"
    using v by (simp add: Decoder_search_def Sum64_def c)
  then show ?thesis
    unfolding Decoder_Read_def Let_def half_frame [OF c(3)] c
    by (simp add: replicate4 dist)
qed

text \<open>The same for a level block of any length.\<close>

lemma level_length: "length (level n) = n"
  by (simp add: level_def)

lemma level_append: "level a @ level b = level (a + b)"
  by (simp add: level_def replicate_add)

lemma level_drop: "drop k (level n) = level (n - k)"
  by (simp add: level_def)

lemma dist_level:
  "Bias d = 0 \<Longrightarrow>
   Read_dist d (two_carriers (level n)) [v, v, v, v] =
     Inr [v + real n, v + real n, v + real n, v + real n]"
  unfolding level_def two_carriers_def
  by (induction n arbitrary: v) (simp_all add: slice_def ac_simps)

lemma Read_level:
  assumes "like_dec0 d"
  shows "Decoder_Read d (level n) = Inr []"
proof -
  from assms(1) have c: "Bias d = 0" "Loud d = 1 / 100" "FrameLen (STFT d) = 8"
    "Amplitude (STFT d) = two_carriers"
    by (simp_all add: like_dec0_def)
  have dist: "Read_dist d (two_carriers (level n)) [0, 0, 0, 0] =
      Inr [real n, real n, real n, real n]"
    using dist_level [OF c(1), of n 0] by simp
  have "Decoder_search d [real n, real n, real n, real n] = []"
    by (simp add: Decoder_search_def Sum64_def c)
  then show ?thesis
    unfolding Decoder_Read_def Let_def half_frame [OF c(3)] c
    by (simp add: replicate4 dist)
qed

subsection \<open>The cycles\<close>

lemma mon0_fields:
  "MaxHold mon0 = 7" "MaxMiss mon0 = 1" "MaxBand mon0 = 2" "Decoder mon0 = dec0"
  "samples mon0 = []" "targets mon0 = []"
  by (simp_all add: mon0_def)

lemma mon1_fields:
  "MaxHold mon1 = 7" "MaxMiss mon1 = 1" "MaxBand mon1 = 2" "Decoder mon1 = dec0"
  "samples mon1 = keyed" "targets mon1 = [target1 0, target1 2]"
  by (simp_all add: mon1_def mon0_def)

lemma shift_dec0: "FrameShift (STFT dec0) = 1"
  by (simp add: dec0_def)

text \<open>A cycle on a buffer without tone: nothing is fresh, the targets are carried or dropped.\<close>

lemma Read_flat_cycle:
  assumes "like_dec0 (Decoder m)" and "Read_samples m signal = Inr held"
    and "held = quiet \<or> held = quiet @ [1]"
  shows "Read_latest m signal = Inr []"
    and "Read_fresh m signal = Inr []"
    and "Monitor_Read m signal =
       Inr (prev_loop m [] (targets m) [], m\<lparr>samples := held, targets := prev_loop m [] (targets m) []\<rparr>)"
proof -
  have w: "wide (m\<lparr>samples := held\<rparr>) = wide m" by (simp add: wide_def)
  have f: "Decoder_Read (wide m) held = Inr []"
    by (rule Read_flat [OF like_wide [OF assms(1)] assms(3)])
  then have nx: "Monitor_next (m\<lparr>samples := held\<rparr>) signal = Inr []"
    by (simp add: Monitor_next_def w)
  show "Read_latest m signal = Inr []"
    by (simp add: Read_latest_def assms(2) nx)
  show "Read_fresh m signal = Inr []"
    by (simp add: Read_fresh_def assms(2) f)
  have pl: "prev_loop (m\<lparr>samples := held\<rparr>) [] ts acc = prev_loop m [] ts acc" for ts acc
    by (induction ts arbitrary: acc) simp_all
  show "Monitor_Read m signal =
       Inr (prev_loop m [] (targets m) [], m\<lparr>samples := held, targets := prev_loop m [] (targets m) []\<rparr>)"
    unfolding Monitor_Read_def assms(2) sum.case nx Let_def
    by (simp add: Monitor_prev_def pl)
qed

lemma Read_level_cycle:
  assumes "like_dec0 (Decoder m)" and "Read_samples m signal = Inr (level n)"
  shows "Monitor_Read m signal =
       Inr (prev_loop m [] (targets m) [],
            m\<lparr>samples := level n, targets := prev_loop m [] (targets m) []\<rparr>)"
proof -
  have w: "wide (m\<lparr>samples := level n\<rparr>) = wide m" by (simp add: wide_def)
  have f: "Decoder_Read (wide m) (level n) = Inr []"
    by (rule Read_level [OF like_wide [OF assms(1)]])
  then have nx: "Monitor_next (m\<lparr>samples := level n\<rparr>) signal = Inr []"
    by (simp add: Monitor_next_def w)
  have pl: "prev_loop (m\<lparr>samples := level n\<rparr>) [] ts acc = prev_loop m [] ts acc" for ts acc
    by (induction ts arbitrary: acc) simp_all
  show ?thesis
    unfolding Monitor_Read_def assms(2) sum.case nx Let_def
    by (simp add: Monitor_prev_def pl)
qed

text \<open>The first cycle: two targets.\<close>

lemma Read_mon0: "Monitor_Read mon0 keyed = Inr ([target1 0, target1 2], mon1)"
proof -
  have s: "Read_samples mon0 keyed = Inr keyed"
    by (simp add: Read_samples_def mon0_fields len_blocks)
  have "wide (mon0\<lparr>samples := keyed\<rparr>) = wide mon0" by (simp add: wide_def)
  moreover have "Decoder_Read (wide mon0) keyed =
     Inr [heard (- 2) True, heard (- 1) True, heard 0 False, heard 2 True,
          heard 0 True, heard 2 False]"
    by (rule Read_keyed) (simp_all add: wide_def mon0_fields like_dec0_def dec0_def)
  ultimately have nx: "Monitor_next (mon0\<lparr>samples := keyed\<rparr>) keyed = Inr [target1 0, target1 2]"
    unfolding Monitor_next_def
    by (simp add: mon0_fields heard_fields heard_Life)
  show ?thesis
    unfolding Monitor_Read_def s sum.case nx Let_def
    by (simp add: Monitor_prev_def mon0_fields mon1_def)
qed

text \<open>A further keyed block: each fresh message on bin 0 or 2 merges with its target.\<close>

lemma detect_dec0_keyed2:
  "Decoder_detect dec0 (keyed @ keyed) =
     \<lparr>Data = keyed @ keyed, Code = ''.-'', Freq = 0, Life = 0, Miss = 0, side = False\<rparr>"
  by (rule detect_keyed2) (simp_all add: dec0_def)

lemma merge_target1:
  assumes "Decoder m = dec0"
  shows "next_merge m keyed (target1 f) (heard f s) =
     Inr \<lparr>Data = keyed @ keyed, Code = ''.-'', Freq = f, Life = 1, Miss = 0, side = False\<rparr>"
  unfolding next_merge_def
  by (simp add: assms shift_dec0 go_div_def slice_from_def signed_divide_int_def
        len_blocks heard_fields target1_fields detect_dec0_keyed2)

lemma samples_second:
  assumes "MaxHold m = 7" "Decoder m = dec0" "length (samples m) = 7"
  shows "Read_samples m keyed = Inr keyed" "Read_samples m quiet = Inr quiet"
  by (simp_all add: Read_samples_def assms len_blocks shift_dec0 go_div_def
        slice_from_def signed_divide_int_def)

lemma Read_mon1: "Monitor_Read mon1 keyed =
     Inr ([target2 0, target2 2, target2 0, target2 2], mon2)"
proof -
  have s: "Read_samples mon1 keyed = Inr keyed"
    by (rule samples_second) (simp_all add: mon1_fields len_blocks)
  have "wide (mon1\<lparr>samples := keyed\<rparr>) = wide mon1" by (simp add: wide_def)
  moreover have "Decoder_Read (wide mon1) keyed =
     Inr [heard (- 2) True, heard (- 1) True, heard 0 False, heard 2 True,
          heard 0 True, heard 2 False]"
    by (rule Read_keyed) (simp_all add: wide_def mon1_fields like_dec0_def dec0_def)
  moreover have "next_merge (mon1\<lparr>samples := keyed\<rparr>) keyed (target1 f) (heard f s) =
     Inr \<lparr>Data = keyed @ keyed, Code = ''.-'', Freq = f, Life = 1, Miss = 0, side = False\<rparr>" for f s
    by (rule merge_target1) (simp add: mon1_fields)
  ultimately have nx: "Monitor_next (mon1\<lparr>samples := keyed\<rparr>) keyed =
     Inr [target2 0, target2 2, target2 0, target2 2]"
    unfolding Monitor_next_def
    by (simp add: mon1_fields heard_fields target1_fields merged_Life)
  show ?thesis
    unfolding Monitor_Read_def s sum.case nx Let_def
    by (simp add: Monitor_prev_def mon2_def mon1_def prev_miss_def target2_fields target1_fields)
qed

text \<open>The same with a monitor whose wide decoder looks at the centre bins only.\<close>

lemma Read_mon1_narrow:
  "Read_fresh (mon1\<lparr>MaxBand := 0\<rparr>) keyed = Inr [heard 0 False, heard 2 False]"
  "Monitor_Read (mon1\<lparr>MaxBand := 0\<rparr>) keyed =
     Inr ([target2 0, target2 2],
          mon1\<lparr>MaxBand := 0, samples := keyed, targets := [target2 0, target2 2]\<rparr>)"
proof -
  let ?m = "mon1\<lparr>MaxBand := 0\<rparr>"
  have s: "Read_samples ?m keyed = Inr keyed"
    by (rule samples_second) (simp_all add: mon1_fields len_blocks)
  have f: "Decoder_Read (wide ?m) keyed = Inr [heard 0 False, heard 2 False]"
    by (rule Read_keyed_narrow) (simp_all add: wide_def mon1_fields like_dec0_def dec0_def)
  show "Read_fresh ?m keyed = Inr [heard 0 False, heard 2 False]"
    by (simp add: Read_fresh_def s f)
  have "wide (?m\<lparr>samples := keyed\<rparr>) = wide ?m" by (simp add: wide_def)
  moreover have "next_merge (?m\<lparr>samples := keyed\<rparr>) keyed (target1 f) (heard f s) =
     Inr \<lparr>Data = keyed @ keyed, Code = ''.-'', Freq = f, Life = 1, Miss = 0, side = False\<rparr>" for f s
    by (rule merge_target1) (simp add: mon1_fields)
  ultimately have nx: "Monitor_next (?m\<lparr>samples := keyed\<rparr>) keyed = Inr [target2 0, target2 2]"
    unfolding Monitor_next_def
    by (simp add: f mon1_fields heard_fields target1_fields merged_Life)
  show "Monitor_Read ?m keyed =
     Inr ([target2 0, target2 2],
          mon1\<lparr>MaxBand := 0, samples := keyed, targets := [target2 0, target2 2]\<rparr>)"
    unfolding Monitor_Read_def s sum.case nx Let_def
    by (simp add: Monitor_prev_def mon1_def prev_miss_def target2_fields target1_fields)
qed

text \<open>Quiet blocks after the first cycle: the targets miss once and are dropped then.\<close>

lemma Read_mon1_quiet:
  "Read_latest mon1 quiet = Inr []"
  "Monitor_Read mon1 quiet = Inr ([missed 0, missed 2], mon_missed)"
proof -
  have s: "Read_samples mon1 quiet = Inr quiet"
    by (rule samples_second) (simp_all add: mon1_fields len_blocks)
  have l: "like_dec0 (Decoder mon1)" by (simp add: mon1_fields like_dec0)
  show "Read_latest mon1 quiet = Inr []"
    by (rule Read_flat_cycle(1) [OF l s]) simp
  have "Monitor_Read mon1 quiet =
       Inr (prev_loop mon1 [] (targets mon1) [],
            mon1\<lparr>samples := quiet, targets := prev_loop mon1 [] (targets mon1) []\<rparr>)"
    by (rule Read_flat_cycle(3) [OF l s]) simp
  moreover have "prev_loop mon1 [] (targets mon1) [] = [missed 0, missed 2]"
    by (simp add: mon1_fields prev_miss_def target1_fields target1_missed)
  ultimately show "Monitor_Read mon1 quiet = Inr ([missed 0, missed 2], mon_missed)"
    by (simp add: mon_missed_def mon1_def)
qed

lemma mon_missed_fields:
  "MaxHold mon_missed = 7" "MaxMiss mon_missed = 1" "Decoder mon_missed = dec0"
  "samples mon_missed = quiet" "targets mon_missed = [missed 0, missed 2]"
  by (simp_all add: mon_missed_def mon0_def)

lemma Read_mon_missed:
  "Read_latest mon_missed quiet = Inr []"
  "Monitor_Read mon_missed quiet = Inr ([], mon_quiet)"
proof -
  have s: "Read_samples mon_missed quiet = Inr quiet"
    by (rule samples_second) (simp_all add: mon_missed_fields len_blocks)
  have l: "like_dec0 (Decoder mon_missed)" by (simp add: mon_missed_fields like_dec0)
  show "Read_latest mon_missed quiet = Inr []"
    by (rule Read_flat_cycle(1) [OF l s]) simp
  have "Monitor_Read mon_missed quiet =
       Inr (prev_loop mon_missed [] (targets mon_missed) [],
            mon_missed\<lparr>samples := quiet, targets := prev_loop mon_missed [] (targets mon_missed) []\<rparr>)"
    by (rule Read_flat_cycle(3) [OF l s]) simp
  moreover have "prev_loop mon_missed [] (targets mon_missed) [] = []"
    by (simp add: mon_missed_fields missed_fields)
  ultimately show "Monitor_Read mon_missed quiet = Inr ([], mon_quiet)"
    by (simp add: mon_missed_def mon_quiet_def)
qed

lemma reachable_mon1: "reachable mon1"
  by (rule reachable.step [OF reachable.start Read_mon0]) (simp_all add: mon0_fields)


subsection \<open>The claims on the example run\<close>






text \<open>The second cycle returns four messages, none of them a side detection.\<close>

theorem no_side_returned_witness:
  "reachable mon1 \<and>
   Monitor_Read mon1 keyed = Inr ([target2 0, target2 2, target2 0, target2 2], mon2) \<and>
   list_all (\<lambda>x. \<not> side x) [target2 0, target2 2, target2 0, target2 2]"
proof -
  from no_side_returned [OF reachable_mon1 Read_mon1]
  have "list_all (\<lambda>x. \<not> side x) [target2 0, target2 2, target2 0, target2 2]"
    unfolding list_all_iff .
  with reachable_mon1 Read_mon1 show ?thesis by (intro conjI)
qed

text \<open>
  With \<open>MaxMiss = 1\<close> the target on bin 0 is returned with \<open>Miss = 1\<close> after one silent
  cycle and is gone after two.
\<close>

lemma silent_mon1: "silent 0 mon1 quiet" "silent 0 mon_missed quiet"
  by (simp_all add: silent_def Read_mon1_quiet Read_mon_missed)

lemma cycles_mon1:
  "silent_cycles (Freq (target1 0)) mon1 [quiet] [] = Some ([missed 0, missed 2], mon_missed)"
  "silent_cycles (Freq (target1 0)) mon1 [quiet, quiet] [] = Some ([], mon_quiet)"
  by (simp_all add: target1_fields silent_mon1 Read_mon1_quiet Read_mon_missed)

theorem target_expiry_witness:
  "reachable mon1 \<and> target1 0 \<in> set (targets mon1) \<and>
   silent_cycles (Freq (target1 0)) mon1 [quiet] [] = Some ([missed 0, missed 2], mon_missed) \<and>
   (target1 0)\<lparr>Miss := Miss (target1 0) + int (length [quiet])\<rparr> \<in> set [missed 0, missed 2] \<and>
   silent_cycles (Freq (target1 0)) mon1 [quiet, quiet] [] = Some ([], mon_quiet) \<and>
   MaxMiss mon1 < Miss (target1 0) + int (length [quiet, quiet]) \<and>
   list_all (\<lambda>x. Miss x \<le> MaxMiss mon1) (targets mon1)"
proof -
  have t: "target1 0 \<in> set (targets mon1)" by (simp add: mon1_fields)
  have le: "Miss (target1 0) + int (length [quiet]) \<le> MaxMiss mon1"
    by (simp add: target1_fields mon1_fields)
  have gt: "MaxMiss mon1 < Miss (target1 0) + int (length [quiet, quiet])"
    by (simp add: target1_fields mon1_fields)
  have nn: "0 \<le> MaxMiss mon1" by (simp add: mon1_fields)
  have ne: "[quiet] \<noteq> []" by simp
  from target_expiry [OF reachable_mon1, of "target1 0" "[quiet]" "[missed 0, missed 2]" mon_missed]
    t ne cycles_mon1(1) le
  have a: "(target1 0)\<lparr>Miss := Miss (target1 0) + int (length [quiet])\<rparr> \<in> set [missed 0, missed 2]"
    by blast
  from target_expiry [OF reachable_mon1, of "target1 0" "[quiet]" "[missed 0, missed 2]" mon_missed] nn
  have "\<forall>x \<in> set (targets mon1). Miss x \<le> MaxMiss mon1"
    by blast
  then have b: "list_all (\<lambda>x. Miss x \<le> MaxMiss mon1) (targets mon1)"
    unfolding list_all_iff .
  from reachable_mon1 t cycles_mon1(1) a cycles_mon1(2) gt b show ?thesis
    by (intro conjI)
qed

text \<open>
  A fresh monitor with a frame shift of two and \<open>MaxHold = 7\<close> reads three level blocks
  of four samples: the second and the third \<open>Read\<close> trim four samples, and four stay.
  A block of five samples then holds two whole frames: four samples are removed from
  the nine, not five.
\<close>

lemma shift2_fields:
  "MaxHold (shift2 mon0) = 7" "FrameShift (STFT (Decoder (shift2 mon0))) = 2"
  "samples (shift2 mon0) = []" "targets (shift2 mon0) = []"
  "like_dec0 (Decoder (shift2 mon0))"
  by (simp_all add: shift2_def mon0_def dec0_def like_dec0_def)

lemma held2_fields:
  "MaxHold (held2 k) = 7" "FrameShift (STFT (Decoder (held2 k))) = 2"
  "samples (held2 k) = level k" "targets (held2 k) = []"
  "like_dec0 (Decoder (held2 k))"
  by (simp_all add: held2_def shift2_fields)

lemma Read_held2:
  assumes "Read_samples (held2 k) (level n) = Inr (level j)"
  shows "Monitor_Read (held2 k) (level n) = Inr ([], held2 j)"
proof -
  have "Monitor_Read (held2 k) (level n) =
       Inr (prev_loop (held2 k) [] (targets (held2 k)) [],
            (held2 k)\<lparr>samples := level j,
               targets := prev_loop (held2 k) [] (targets (held2 k)) []\<rparr>)"
    by (rule Read_level_cycle [OF held2_fields(5) assms])
  then show ?thesis
    by (simp add: held2_fields) (simp add: held2_def)
qed

lemma samples_held2:
  "Read_samples (held2 0) (level 4) = Inr (level 4)"
  "Read_samples (held2 4) (level 4) = Inr (level 4)"
  "Read_samples (held2 4) (level 5) = Inr (level 5)"
  by (simp_all add: Read_samples_def held2_fields level_append level_length level_drop
        go_div_def slice_from_def signed_divide_int_def)

lemma Reads_held2: "Reads (held2 0) [level 4, level 4, level 4] = Inr (held2 4)"
  by (simp add: Read_held2 [OF samples_held2(1)] Read_held2 [OF samples_held2(2)])

theorem rolling_buffer_witness:
  "Reads (held2 0) [level 4, level 4, level 4] = Inr (held2 4) \<and>
   int (length (samples (held2 0))) \<le> MaxHold (held2 0) \<and>
   FrameShift (STFT (Decoder (held2 0))) = 2 \<and>
   list_all (\<lambda>signal. (2 :: int) dvd int (length signal)) [level 4, level 4, level 4] \<and>
   int (length (samples (held2 4))) \<le> MaxHold (held2 4) \<and>
   Monitor_Read (held2 4) (level 5) = Inr ([], held2 5) \<and>
   MaxHold (held2 4) < int (length (samples (held2 4) @ level 5)) \<and>
   int (length (level 5)) sdiv FrameShift (STFT (Decoder (held2 4)))
     * FrameShift (STFT (Decoder (held2 4))) = 4 \<and>
   (\<exists>removed. samples (held2 4) @ level 5 = removed @ samples (held2 5) \<and>
      int (length removed) = 4 \<and> (2 :: int) dvd int (length removed))"
proof -
  have h: "int (length (samples (held2 0))) \<le> MaxHold (held2 0)"
    by (simp add: held2_fields level_length)
  have d: "\<forall>signal \<in> set [level 4, level 4, level 4].
             FrameShift (STFT (Decoder (held2 0))) dvd int (length signal)"
    by (simp add: held2_fields level_length)
  have d': "list_all (\<lambda>signal. (2 :: int) dvd int (length signal)) [level 4, level 4, level 4]"
    by (simp add: level_length)
  have rd: "Monitor_Read (held2 4) (level 5) = Inr ([], held2 5)"
    by (rule Read_held2 [OF samples_held2(3)])
  have g: "MaxHold (held2 4) < int (length (samples (held2 4) @ level 5))"
    by (simp add: held2_fields level_length)
  have q: "int (length (level 5)) sdiv FrameShift (STFT (Decoder (held2 4)))
     * FrameShift (STFT (Decoder (held2 4))) = 4"
    by (simp add: held2_fields level_length signed_divide_int_def)
  have q2: "int (length (level 5)) sdiv 2 * 2 = 4"
    using q unfolding held2_fields(2) .
  from rolling_buffer [where m = "held2 0" and signals = "[level 4, level 4, level 4]"
      and m' = "held2 4"] Reads_held2 h d
  have a: "int (length (samples (held2 4))) \<le> MaxHold (held2 4)"
    by blast
  from rolling_buffer [where m = "held2 4" and signal = "level 5" and result = "[]"
      and ?m1.0 = "held2 5"] rd g
  have "\<exists>removed. samples (held2 4) @ level 5 = removed @ samples (held2 5) \<and>
      int (length removed) =
        int (length (level 5)) sdiv FrameShift (STFT (Decoder (held2 4)))
          * FrameShift (STFT (Decoder (held2 4))) \<and>
      FrameShift (STFT (Decoder (held2 4))) dvd int (length removed)"
    by blast
  then have b: "\<exists>removed. samples (held2 4) @ level 5 = removed @ samples (held2 5) \<and>
      int (length removed) = 4 \<and> (2 :: int) dvd int (length removed)"
    unfolding held2_fields(2) q2 .
  from Reads_held2 h held2_fields(2) d' a rd g q b show ?thesis
    by (intro conjI)
qed

text \<open>
  Claim C4 as stated fails for a block that is no whole multiple of the frame shift.
  With a frame shift of 2 and \<open>MaxHold = 7\<close>, a fresh monitor reads seven samples and
  then one: the buffer of eight exceeds \<open>MaxHold\<close>, the block holds no whole frame,
  nothing is trimmed, and eight samples stay.
\<close>

lemma Read_shift2_first:
  "Monitor_Read (shift2 mon0) quiet =
     Inr ([], (shift2 mon0)\<lparr>samples := quiet, targets := []\<rparr>)"
proof -
  have s: "Read_samples (shift2 mon0) quiet = Inr quiet"
    by (simp add: Read_samples_def shift2_fields len_blocks)
  have "Monitor_Read (shift2 mon0) quiet =
       Inr (prev_loop (shift2 mon0) [] (targets (shift2 mon0)) [],
            (shift2 mon0)\<lparr>samples := quiet,
               targets := prev_loop (shift2 mon0) [] (targets (shift2 mon0)) []\<rparr>)"
    by (rule Read_flat_cycle(3) [OF shift2_fields(5) s]) simp
  then show ?thesis
    by (simp add: shift2_fields)
qed

lemma Read_shift2_second:
  "Monitor_Read ((shift2 mon0)\<lparr>samples := quiet, targets := []\<rparr>) [1] =
     Inr ([], (shift2 mon0)\<lparr>samples := quiet @ [1], targets := []\<rparr>)"
proof -
  let ?m = "(shift2 mon0)\<lparr>samples := quiet, targets := []\<rparr>"
  have s: "Read_samples ?m [1] = Inr (quiet @ [1])"
    by (simp add: Read_samples_def shift2_fields len_blocks go_div_def slice_from_def
          signed_divide_int_def)
  have l: "like_dec0 (Decoder ?m)" by (simp add: shift2_fields)
  have "Monitor_Read ?m [1] =
       Inr (prev_loop ?m [] (targets ?m) [],
            ?m\<lparr>samples := quiet @ [1], targets := prev_loop ?m [] (targets ?m) []\<rparr>)"
    by (rule Read_flat_cycle(3) [OF l s]) simp
  then show ?thesis
    by simp
qed

theorem rolling_buffer_counterexample:
  "samples (shift2 mon0) = [] \<and>
   Monitor_Read (shift2 mon0) quiet =
     Inr ([], (shift2 mon0)\<lparr>samples := quiet, targets := []\<rparr>) \<and>
   Monitor_Read ((shift2 mon0)\<lparr>samples := quiet, targets := []\<rparr>) [1] =
     Inr ([], (shift2 mon0)\<lparr>samples := quiet @ [1], targets := []\<rparr>) \<and>
   MaxHold ((shift2 mon0)\<lparr>samples := quiet @ [1], targets := []\<rparr>)
     < int (length (samples ((shift2 mon0)\<lparr>samples := quiet @ [1], targets := []\<rparr>)))"
proof -
  have "MaxHold ((shift2 mon0)\<lparr>samples := quiet @ [1], targets := []\<rparr>)
     < int (length (samples ((shift2 mon0)\<lparr>samples := quiet @ [1], targets := []\<rparr>)))"
    by (simp add: shift2_fields len_blocks)
  with shift2_fields(3) Read_shift2_first Read_shift2_second show ?thesis
    by (intro conjI)
qed

text \<open>
  With a wide decoder that looks at the centre bins only, the fresh messages of the
  second cycle are on distinct bins, and so are the targets after it.
\<close>

theorem targets_distinct_witness:
  "Monitor_Read (mon1\<lparr>MaxBand := 0\<rparr>) keyed =
     Inr ([target2 0, target2 2],
          mon1\<lparr>MaxBand := 0, samples := keyed, targets := [target2 0, target2 2]\<rparr>) \<and>
   Read_fresh (mon1\<lparr>MaxBand := 0\<rparr>) keyed = Inr [heard 0 False, heard 2 False] \<and>
   distinct (map Freq [heard 0 False, heard 2 False]) \<and>
   distinct (map Freq (targets (mon1\<lparr>MaxBand := 0\<rparr>))) \<and>
   distinct (map Freq (targets
     (mon1\<lparr>MaxBand := 0, samples := keyed, targets := [target2 0, target2 2]\<rparr>)))"
proof -
  have 3: "distinct (map Freq [heard 0 False, heard 2 False])"
    by (simp add: heard_fields)
  have 4: "distinct (map Freq (targets (mon1\<lparr>MaxBand := 0\<rparr>)))"
    by (simp add: mon1_fields target1_fields)
  from targets_distinct [OF Read_mon1_narrow(2) Read_mon1_narrow(1) 3 4]
    Read_mon1_narrow(2) Read_mon1_narrow(1) 3 4
  show ?thesis by (intro conjI)
qed

text \<open>
  Claim C10 as stated fails. Two carriers two bins apart are each within the band of the
  other. In the first cycle each becomes a target; in the second each is found as a
  centre and as a neighbour of the other centre, both detections merge with the target
  on their bin, and the table holds each bin twice.
\<close>

theorem targets_distinct_counterexample:
  "samples mon0 = [] \<and> targets mon0 = [] \<and>
   Monitor_Read mon0 keyed = Inr ([target1 0, target1 2], mon1) \<and>
   Monitor_Read mon1 keyed = Inr ([target2 0, target2 2, target2 0, target2 2], mon2) \<and>
   reachable mon2 \<and>
   \<not> distinct (map Freq (targets mon2))"
proof -
  have r: "reachable mon2"
    by (rule reachable.step [OF reachable_mon1 Read_mon1])
  have n: "\<not> distinct (map Freq (targets mon2))"
    by (simp add: mon2_def target2_fields)
  from mon0_fields(5,6) Read_mon0 Read_mon1 r n show ?thesis
    by (intro conjI)
qed


end
